theory Spec2Isabelle
  imports Complex_Main "HOL-Library.Multiset"
begin

section \<open>Numbers and the decimal helpers (src/utils/decimal.ts)\<close>

text \<open>
  The source keeps prices, sizes and fees as decimal strings and computes on them with
  \<^verbatim>\<open>parseFloat\<close>. The embedding reads every such string as the number it denotes, an
  exact rational: the order of the branches, the comparisons with zero and the arithmetic
  expressions are those of the source; binary rounding, infinities and NaN are not part of
  the model. Timestamps (\<^verbatim>\<open>timeMs\<close>, milliseconds) are integers.

  Where a sum is not exact in binary floating point the program differs from the exact
  value: with sizes 0.1, 0.2 and then a sell of 0.3 the running size of the program is not
  zero after the sell. The theorems below are about the exact arithmetic, and about the
  program on amounts whose sums and products are exact in binary floating point.
\<close>

datatype error = DivisionByZero

definition decimal_add :: "rat \<Rightarrow> rat \<Rightarrow> rat" where
  "decimal_add a b = a + b"

definition decimal_multiply :: "rat \<Rightarrow> rat \<Rightarrow> rat" where
  "decimal_multiply a b = a * b"

text \<open>\<^verbatim>\<open>divide\<close> throws \<^verbatim>\<open>Error('Division by zero')\<close> on a zero divisor.\<close>

definition decimal_divide :: "rat \<Rightarrow> rat \<Rightarrow> error + rat" where
  "decimal_divide a b = (if b = 0 then Inl DivisionByZero else Inr (a / b))"

definition decimal_isZero :: "rat \<Rightarrow> bool" where
  "decimal_isZero a = (a = 0)"

section \<open>Data model (src/types/index.ts and the stored tables)\<close>

datatype side = B | A

record Fill =
  timeMs :: int
  coin :: string
  side :: side
  px :: rat
  sz :: rat
  fee :: rat
  closedPnl :: "rat option"
  builderFee :: "rat option"
  tid :: "string option"
  user :: "string option"

text \<open>A row of the \<^verbatim>\<open>positions\<close> table; unique on (user, coin, timeMs).\<close>

record PositionRow =
  pos_user :: string
  pos_coin :: string
  pos_timeMs :: int
  pos_netSize :: rat
  pos_avgEntryPx :: rat

text \<open>
  A row of the \<^verbatim>\<open>position_lifecycles\<close> table. Its only key is the serial \<^verbatim>\<open>id\<close>;
  the table has an index, and no unique constraint, on (user, coin, start_ms, end_ms).
\<close>

record LifecycleRow =
  lc_id :: nat
  lc_user :: string
  lc_coin :: string
  lc_startMs :: int
  lc_endMs :: "int option"
  lc_hasBuilderFills :: bool
  lc_hasNonBuilderFills :: bool

text \<open>The two tables the position tracker writes, and the next serial id.\<close>

record Db =
  positions :: "PositionRow list"
  lifecycles :: "LifecycleRow list"
  nextId :: nat

definition emptyDb :: Db where
  "emptyDb = \<lparr>positions = [], lifecycles = [], nextId = 1\<rparr>"

subsection \<open>The storage operations the tracker calls\<close>

text \<open>\<^verbatim>\<open>prisma.position.upsert\<close>: update netSize and avgEntryPx of the row with the key, or
  create the row.\<close>

fun position_upsert :: "PositionRow \<Rightarrow> PositionRow list \<Rightarrow> PositionRow list" where
  "position_upsert p [] = [p]"
| "position_upsert p (q # qs) =
     (if pos_user q = pos_user p \<and> pos_coin q = pos_coin p \<and> pos_timeMs q = pos_timeMs p
      then q\<lparr>pos_netSize := pos_netSize p, pos_avgEntryPx := pos_avgEntryPx p\<rparr> # qs
      else q # position_upsert p qs)"

text \<open>\<^verbatim>\<open>prisma.positionLifecycle.create\<close>: a new row under a fresh id, which is returned.\<close>

definition lifecycle_create :: "string \<Rightarrow> string \<Rightarrow> int \<Rightarrow> bool \<Rightarrow> bool \<Rightarrow> Db \<Rightarrow> nat \<times> Db" where
  "lifecycle_create u c t hb hnb db =
     (nextId db,
      db\<lparr>lifecycles := lifecycles db @
            [\<lparr>lc_id = nextId db, lc_user = u, lc_coin = c, lc_startMs = t, lc_endMs = None,
              lc_hasBuilderFills = hb, lc_hasNonBuilderFills = hnb\<rparr>],
         nextId := Suc (nextId db)\<rparr>)"

text \<open>\<^verbatim>\<open>prisma.positionLifecycle.update({ where: { id }, data })\<close>.\<close>

definition lifecycle_update :: "nat \<Rightarrow> (LifecycleRow \<Rightarrow> LifecycleRow) \<Rightarrow> Db \<Rightarrow> Db" where
  "lifecycle_update i data db =
     db\<lparr>lifecycles := map (\<lambda>r. if lc_id r = i then data r else r) (lifecycles db)\<rparr>"

section \<open>Position tracker (position-tracker.ts)\<close>

definition calculateAvgEntryPx :: "rat \<Rightarrow> rat \<Rightarrow> rat \<Rightarrow> rat \<Rightarrow> rat" where
  "calculateAvgEntryPx oldSize oldAvgPx fillSize fillPx =
     (let newSizeNum = oldSize + fillSize in
      if newSizeNum = 0 then 0
      else if oldSize = 0 then fillPx
      else if (oldSize > 0 \<and> fillSize > 0) \<or> (oldSize < 0 \<and> fillSize < 0) then
        (\<bar>oldSize\<bar> * oldAvgPx + \<bar>fillSize\<bar> * fillPx) / \<bar>newSizeNum\<bar>
      else if \<bar>newSizeNum\<bar> < \<bar>oldSize\<bar> then oldAvgPx
      else if (oldSize > 0 \<and> newSizeNum < 0) \<or> (oldSize < 0 \<and> newSizeNum > 0) then fillPx
      else oldAvgPx)"

text \<open>The variables of the loop in \<^verbatim>\<open>reconstructPositionHistory\<close>.\<close>

record Vars =
  netSize :: rat
  avgEntryPx :: rat
  currentLifecycleId :: "nat option"
  hasBuilderFills :: bool
  hasNonBuilderFills :: bool

definition initVars :: Vars where
  "initVars = \<lparr>netSize = 0, avgEntryPx = 0, currentLifecycleId = None,
               hasBuilderFills = False, hasNonBuilderFills = False\<rparr>"

text \<open>\<^verbatim>\<open>!!(fill.builderFee && parseFloat(fill.builderFee) > 0)\<close>\<close>

definition isBuilderFill :: "Fill \<Rightarrow> bool" where
  "isBuilderFill fill = (case builderFee fill of None \<Rightarrow> False | Some bf \<Rightarrow> bf > 0)"

definition signedFillSize :: "Fill \<Rightarrow> rat" where
  "signedFillSize fill = (if side fill = B then sz fill else decimal_multiply (sz fill) (- 1))"

text \<open>The first branch of the loop body: a lifecycle starts, or the open one collects a flag.\<close>

definition openOrFlag :: "string \<Rightarrow> string \<Rightarrow> Fill \<Rightarrow> rat \<Rightarrow> rat \<Rightarrow> Vars \<times> Db \<Rightarrow> Vars \<times> Db" where
  "openOrFlag u c fill oldSize newSize s =
     (let v = fst s; db = snd s in
      if decimal_isZero oldSize \<and> \<not> decimal_isZero newSize then
        let db1 = (case currentLifecycleId v of
                     None \<Rightarrow> db
                   | Some i \<Rightarrow>
                       lifecycle_update i
                         (\<lambda>r. r\<lparr>lc_endMs := Some (timeMs fill),
                                lc_hasBuilderFills := hasBuilderFills v,
                                lc_hasNonBuilderFills := hasNonBuilderFills v\<rparr>) db);
            created = lifecycle_create u c (timeMs fill) (isBuilderFill fill) (\<not> isBuilderFill fill) db1
        in (v\<lparr>currentLifecycleId := Some (fst created),
               hasBuilderFills := isBuilderFill fill,
               hasNonBuilderFills := \<not> isBuilderFill fill\<rparr>, snd created)
      else if currentLifecycleId v \<noteq> None then
        (v\<lparr>hasBuilderFills := (if isBuilderFill fill then True else hasBuilderFills v),
           hasNonBuilderFills := (if \<not> isBuilderFill fill then True else hasNonBuilderFills v)\<rparr>, db)
      else (v, db))"

text \<open>The last branch of the loop body: the lifecycle ends when the size returns to zero.\<close>

definition closeIfFlat :: "Fill \<Rightarrow> rat \<Rightarrow> rat \<Rightarrow> Vars \<times> Db \<Rightarrow> Vars \<times> Db" where
  "closeIfFlat fill oldSize newSize s =
     (let v = fst s; db = snd s in
      case currentLifecycleId v of
        Some i \<Rightarrow>
          if \<not> decimal_isZero oldSize \<and> decimal_isZero newSize then
            (v\<lparr>currentLifecycleId := None, hasBuilderFills := False,
               hasNonBuilderFills := False, avgEntryPx := 0\<rparr>,
             lifecycle_update i
               (\<lambda>r. r\<lparr>lc_endMs := Some (timeMs fill),
                      lc_hasBuilderFills := hasBuilderFills v,
                      lc_hasNonBuilderFills := hasNonBuilderFills v\<rparr>) db)
          else (v, db)
      | None \<Rightarrow> (v, db))"

text \<open>One iteration of the loop over the sorted fills.\<close>

definition processFill :: "string \<Rightarrow> string \<Rightarrow> Fill \<Rightarrow> Vars \<times> Db \<Rightarrow> Vars \<times> Db" where
  "processFill u c fill s =
     (let fillSize = signedFillSize fill;
          oldSize = netSize (fst s);
          newSize = decimal_add (netSize (fst s)) fillSize;
          s1 = openOrFlag u c fill oldSize newSize s;
          v2 = (fst s1)\<lparr>avgEntryPx := calculateAvgEntryPx oldSize (avgEntryPx (fst s1)) fillSize (px fill),
                         netSize := newSize\<rparr>;
          db2 = (snd s1)\<lparr>positions :=
                   position_upsert
                     \<lparr>pos_user = u, pos_coin = c, pos_timeMs = timeMs fill,
                      pos_netSize = netSize v2, pos_avgEntryPx = avgEntryPx v2\<rparr>
                     (positions (snd s1))\<rparr>
      in closeIfFlat fill oldSize newSize (v2, db2))"

fun processFills :: "string \<Rightarrow> string \<Rightarrow> Fill list \<Rightarrow> Vars \<times> Db \<Rightarrow> Vars \<times> Db" where
  "processFills u c [] s = s"
| "processFills u c (fill # rest) s = processFills u c rest (processFill u c fill s)"

text \<open>
  \<^verbatim>\<open>[...fills].sort((a, b) => a.timeMs - b.timeMs)\<close>: the sort of the language is stable, so
  the result is the one stable arrangement by \<^verbatim>\<open>timeMs\<close>, which \<^const>\<open>sort_key\<close> computes.
\<close>

definition sortFills :: "Fill list \<Rightarrow> Fill list" where
  "sortFills fills = sort_key timeMs fills"

definition reconstructPositionHistory :: "string \<Rightarrow> string \<Rightarrow> Fill list \<Rightarrow> Db \<Rightarrow> Db" where
  "reconstructPositionHistory u c fills db =
     (if fills = [] then db
      else
        let s = processFills u c (sortFills fills) (initVars, db) in
        case currentLifecycleId (fst s) of
          None \<Rightarrow> snd s
        | Some i \<Rightarrow>
            lifecycle_update i
              (\<lambda>r. r\<lparr>lc_hasBuilderFills := hasBuilderFills (fst s),
                     lc_hasNonBuilderFills := hasNonBuilderFills (fst s)\<rparr>) (snd s))"

text \<open>\<^verbatim>\<open>isTainted\<close>: a lifecycle with both builder and non-builder fills.\<close>

definition isTainted :: "LifecycleRow \<Rightarrow> bool" where
  "isTainted lifecycle = (lc_hasBuilderFills lifecycle \<and> lc_hasNonBuilderFills lifecycle)"

section \<open>Read paths\<close>

text \<open>
  The values of a request arrive as the texts of its query parameters, without coercion.
  A numeric parameter is \<open>Some n\<close> for a text that denotes \<open>n\<close> and \<open>None\<close> when it is absent;
  a present text is truthy whatever number it denotes. \<^verbatim>\<open>builderOnly\<close> is the truthiness of
  its text.

  A stored fill, as the routes read it from the \<^verbatim>\<open>fills\<close> table. The trade, position and
  PnL routes receive here the rows their \<^verbatim>\<open>findMany\<close> queries returned: the fills of the
  request, and the lifecycles of the account that the lifecycle query of the request
  selects. The leaderboard route is given the tables and runs its queries on them.
\<close>

record FillRow =
  fr_timeMs :: int
  fr_user :: string
  fr_coin :: string
  fr_side :: side
  fr_px :: rat
  fr_sz :: rat
  fr_fee :: rat
  fr_closedPnl :: "rat option"
  fr_builderFee :: "rat option"

text \<open>The row \<^verbatim>\<open>ingestUserFills\<close> creates for a fill of account \<open>u\<close> (the \<^verbatim>\<open>tid\<close> column is
  left out).\<close>

definition storedFill :: "string \<Rightarrow> Fill \<Rightarrow> FillRow" where
  "storedFill u fill =
     \<lparr>fr_timeMs = timeMs fill,
      fr_user = (case user fill of None \<Rightarrow> u | Some x \<Rightarrow> if x = [] then u else x),
      fr_coin = coin fill, fr_side = side fill, fr_px = px fill, fr_sz = sz fill,
      fr_fee = fee fill, fr_closedPnl = closedPnl fill, fr_builderFee = builderFee fill\<rparr>"

record Range =
  range_start :: int
  range_end :: "int option"

record MarkedRange = Range +
  range_tainted :: bool

text \<open>\<^verbatim>\<open>if (!ranges[coin]) ranges[coin] = []; ranges[coin].push(r)\<close>\<close>

definition pushRange :: "(string \<rightharpoonup> 'r list) \<Rightarrow> string \<Rightarrow> 'r \<Rightarrow> (string \<rightharpoonup> 'r list)" where
  "pushRange m c r = m(c \<mapsto> (case m c of None \<Rightarrow> [] | Some rs \<Rightarrow> rs) @ [r])"

text \<open>\<^verbatim>\<open>ranges[coin] || []\<close> (a coin symbol is never the name of a member of
  \<^verbatim>\<open>Object.prototype\<close>)\<close>

definition rangesFor :: "(string \<rightharpoonup> 'r list) \<Rightarrow> string \<Rightarrow> 'r list" where
  "rangesFor m c = (case m c of None \<Rightarrow> [] | Some rs \<Rightarrow> rs)"

subsection \<open>Fills in builder-only mode (trades.ts, pnl.ts, leaderboard.ts)\<close>

fun taintedRanges :: "LifecycleRow list \<Rightarrow> (string \<rightharpoonup> Range list) \<Rightarrow> (string \<rightharpoonup> Range list)" where
  "taintedRanges [] m = m"
| "taintedRanges (lifecycle # rest) m =
     taintedRanges rest
       (if lc_hasBuilderFills lifecycle \<and> lc_hasNonBuilderFills lifecycle
        then pushRange m (lc_coin lifecycle)
               \<lparr>range_start = lc_startMs lifecycle, range_end = lc_endMs lifecycle\<rparr>
        else m)"

fun inRanges :: "int \<Rightarrow> Range list \<Rightarrow> bool" where
  "inRanges t [] = False"
| "inRanges t (r # rs) =
     (if t \<ge> range_start r \<and> (case range_end r of None \<Rightarrow> True | Some e \<Rightarrow> t \<le> e)
      then True else inRanges t rs)"

text \<open>The callback of \<^verbatim>\<open>fills.filter\<close>, the same text in the three routes.\<close>

definition keepBuilderFill :: "(string \<rightharpoonup> Range list) \<Rightarrow> FillRow \<Rightarrow> bool" where
  "keepBuilderFill ranges fill =
     (let hasBuilderFee = (case fr_builderFee fill of None \<Rightarrow> False | Some bf \<Rightarrow> bf > 0) in
      if \<not> hasBuilderFee then False
      else \<not> inRanges (fr_timeMs fill) (rangesFor ranges (fr_coin fill)))"

text \<open>The fills the trade listing formats into its response, one entry each.\<close>

definition tradesFills :: "bool \<Rightarrow> FillRow list \<Rightarrow> LifecycleRow list \<Rightarrow> FillRow list" where
  "tradesFills builderOnly fills lcs =
     (if builderOnly then filter (keepBuilderFill (taintedRanges lcs Map.empty)) fills else fills)"

text \<open>The fills the PnL route aggregates.\<close>

definition pnlFills :: "bool \<Rightarrow> FillRow list \<Rightarrow> LifecycleRow list \<Rightarrow> FillRow list" where
  "pnlFills builderOnly fills lcs =
     (if builderOnly then filter (keepBuilderFill (taintedRanges lcs Map.empty)) fills else fills)"

subsection \<open>PnL summary (pnl.ts)\<close>

datatype 'a reply = Ok 'a | BadRequest | InternalServerError

record PnLQuery =
  pq_user :: string
  pq_fromMs :: "int option"
  pq_builderOnly :: bool
  pq_maxStartCapital :: "rat option"

record PnLResponse =
  realizedPnl :: rat
  returnPct :: rat
  feesPaid :: rat
  tradeCount :: nat
  tainted :: "bool option"

fun pnlTotals :: "FillRow list \<Rightarrow> rat \<times> rat \<Rightarrow> rat \<times> rat" where
  "pnlTotals [] acc = acc"
| "pnlTotals (fill # rest) acc =
     pnlTotals rest
       ((case fr_closedPnl fill of None \<Rightarrow> fst acc | Some p \<Rightarrow> decimal_add (fst acc) p),
        decimal_add (snd acc) (fr_fee fill))"

text \<open>
  \<^verbatim>\<open>maxStartCapital ? Math.min(equityAtFromMs, maxStartCapital) : equityAtFromMs\<close>. The
  routes are registered without a schema, so the cap is the text of the query parameter:
  \<open>Some c\<close> is a text that denotes the number \<open>c\<close>, \<open>None\<close> an absent (or empty) parameter.
  Every text but the empty one is truthy, the text \<^verbatim>\<open>0\<close> too, and \<^verbatim>\<open>Math.min\<close> reads it as
  the number: a cap of 0 gives the effective capital 0.
\<close>

definition effectiveCapital :: "rat \<Rightarrow> rat option \<Rightarrow> rat" where
  "effectiveCapital equityAtFromMs maxStartCapital =
     (case maxStartCapital of
        None \<Rightarrow> equityAtFromMs
      | Some c \<Rightarrow> min equityAtFromMs c)"

text \<open>\<^verbatim>\<open>equitySnapshot ? parseFloat(equitySnapshot.accountValue.toString()) : 0\<close>, where
  \<open>equitySnapshot\<close> is what \<^verbatim>\<open>equitySnapshot.findFirst\<close> found at or before \<^verbatim>\<open>fromMs\<close>.\<close>

definition equityAtFromMs :: "rat option \<Rightarrow> rat" where
  "equityAtFromMs equitySnapshot = (case equitySnapshot of None \<Rightarrow> 0 | Some v \<Rightarrow> v)"

text \<open>The return percentage of the PnL route; it stays \<^verbatim>\<open>'0'\<close> without \<^verbatim>\<open>fromMs\<close> and
  without positive equity.\<close>

definition calcReturnPct :: "int option \<Rightarrow> rat option \<Rightarrow> rat option \<Rightarrow> rat \<Rightarrow> error + rat" where
  "calcReturnPct fromMs equitySnapshot maxStartCapital pnl =
     (case fromMs of
        None \<Rightarrow> Inr 0
      | Some _ \<Rightarrow>
          if equityAtFromMs equitySnapshot > 0 then
            (case decimal_divide pnl
                    (effectiveCapital (equityAtFromMs equitySnapshot) maxStartCapital) of
               Inl e \<Rightarrow> Inl e
             | Inr q \<Rightarrow> Inr (decimal_multiply q 100))
          else Inr 0)"

definition pnlRoute :: "PnLQuery \<Rightarrow> FillRow list \<Rightarrow> LifecycleRow list \<Rightarrow> rat option \<Rightarrow> PnLResponse reply" where
  "pnlRoute q fills lcs equitySnapshot =
     (if pq_user q = [] then BadRequest
      else
        let kept = pnlFills (pq_builderOnly q) fills lcs;
            totals = pnlTotals kept (0, 0)
        in case calcReturnPct (pq_fromMs q) equitySnapshot (pq_maxStartCapital q) (fst totals) of
             Inl e \<Rightarrow> InternalServerError
           | Inr r \<Rightarrow>
               Ok \<lparr>realizedPnl = fst totals, returnPct = r, feesPaid = snd totals,
                   tradeCount = length kept,
                   tainted = (if pq_builderOnly q then Some (list_ex isTainted lcs) else None)\<rparr>)"

subsection \<open>Position history in builder-only mode (positions.ts)\<close>

fun markedRanges :: "LifecycleRow list \<Rightarrow> (string \<rightharpoonup> MarkedRange list) \<Rightarrow> (string \<rightharpoonup> MarkedRange list)" where
  "markedRanges [] m = m"
| "markedRanges (lifecycle # rest) m =
     markedRanges rest
       (pushRange m (lc_coin lifecycle)
          \<lparr>range_start = lc_startMs lifecycle, range_end = lc_endMs lifecycle,
           range_tainted = (lc_hasBuilderFills lifecycle \<and> lc_hasNonBuilderFills lifecycle)\<rparr>)"

text \<open>The loop of the callback of \<^verbatim>\<open>positions.filter\<close>: the first range that holds the
  timestamp decides.\<close>

fun inCleanRange :: "int \<Rightarrow> MarkedRange list \<Rightarrow> bool" where
  "inCleanRange t [] = False"
| "inCleanRange t (r # rs) =
     (if t \<ge> range_start r \<and> (case range_end r of None \<Rightarrow> True | Some e \<Rightarrow> t \<le> e)
      then (if range_tainted r then False else True)
      else inCleanRange t rs)"

definition keepPosition :: "(string \<rightharpoonup> MarkedRange list) \<Rightarrow> PositionRow \<Rightarrow> bool" where
  "keepPosition ranges position =
     inCleanRange (pos_timeMs position) (rangesFor ranges (pos_coin position))"

definition positionsHistory :: "bool \<Rightarrow> PositionRow list \<Rightarrow> LifecycleRow list \<Rightarrow> PositionRow list" where
  "positionsHistory builderOnly ps lcs =
     (if builderOnly then filter (keepPosition (markedRanges lcs Map.empty)) ps else ps)"

subsection \<open>Leaderboard (leaderboard.ts)\<close>

text \<open>\<^verbatim>\<open>'volume' | 'pnl' | 'returnPct'\<close>, or any other text, for which the metric value stays 0.\<close>

datatype metric = Volume | Pnl | ReturnPct | OtherMetric

record LeaderboardQuery =
  lq_coin :: "string option"
  lq_fromMs :: "int option"
  lq_toMs :: "int option"
  lq_metric :: "metric option"
  lq_builderOnly :: bool
  lq_maxStartCapital :: "rat option"

text \<open>
  The \<^verbatim>\<open>where\<close> object of the fill query:
  \<^verbatim>\<open>{ ...(coin && { coin }), ...(fromMs && { timeMs: { gte } }), ...(toMs && { timeMs: { lte } }) }\<close>.
  Both time bounds are written under the key \<^verbatim>\<open>timeMs\<close>, so with a \<^verbatim>\<open>toMs\<close> the later spread
  replaces the lower bound.
\<close>

definition fillMatches :: "string option \<Rightarrow> int option \<Rightarrow> int option \<Rightarrow> FillRow \<Rightarrow> bool" where
  "fillMatches c fromMs toMs fill =
     ((case c of None \<Rightarrow> True | Some x \<Rightarrow> x = [] \<or> fr_coin fill = x) \<and>
      (case toMs of
         Some t \<Rightarrow> fr_timeMs fill \<le> t
       | None \<Rightarrow> (case fromMs of None \<Rightarrow> True | Some f \<Rightarrow> fr_timeMs fill \<ge> f)))"

text \<open>
  The \<^verbatim>\<open>where\<close> object of the lifecycle query, the same in every route:
  \<^verbatim>\<open>{ user, ...(coin && { coin }),
    ...(fromMs && { OR: [{ startMs: { gte } }, { endMs: { gte } }, { endMs: null }] }),
    ...(toMs && { startMs: { lte } }) }\<close>.
\<close>

definition lifecycleMatches ::
  "string \<Rightarrow> string option \<Rightarrow> int option \<Rightarrow> int option \<Rightarrow> LifecycleRow \<Rightarrow> bool" where
  "lifecycleMatches u c fromMs toMs l =
     (lc_user l = u \<and>
      (case c of None \<Rightarrow> True | Some x \<Rightarrow> x = [] \<or> lc_coin l = x) \<and>
      (case fromMs of
         None \<Rightarrow> True
       | Some f \<Rightarrow> lc_startMs l \<ge> f \<or> (case lc_endMs l of None \<Rightarrow> True | Some e \<Rightarrow> e \<ge> f)) \<and>
      (case toMs of None \<Rightarrow> True | Some t \<Rightarrow> lc_startMs l \<le> t))"

definition findLifecycles :: "LeaderboardQuery \<Rightarrow> LifecycleRow list \<Rightarrow> string \<Rightarrow> LifecycleRow list" where
  "findLifecycles q lifecycleTable u =
     filter (lifecycleMatches u (lq_coin q) (lq_fromMs q) (lq_toMs q)) lifecycleTable"

record LeaderboardData =
  ld_user :: string
  ld_metricValue :: rat
  ld_tradeCount :: nat
  ld_tainted :: bool

record LeaderboardEntry =
  le_rank :: nat
  le_user :: string
  le_metricValue :: rat
  le_tradeCount :: nat
  le_tainted :: bool

text \<open>
  \<^verbatim>\<open>userFills[fill.user].push(fill)\<close> over the fills, read back with
  \<^verbatim>\<open>Object.entries\<close>: the accounts in the order of their first fill, each with its fills in
  order (account identifiers are wallet addresses, never array indices, so the object
  keeps insertion order).
\<close>

fun pushUserFill :: "(string \<times> FillRow list) list \<Rightarrow> FillRow \<Rightarrow> (string \<times> FillRow list) list" where
  "pushUserFill [] fill = [(fr_user fill, [fill])]"
| "pushUserFill ((u, fs) # rest) fill =
     (if u = fr_user fill then (u, fs @ [fill]) # rest else (u, fs) # pushUserFill rest fill)"

definition groupByUser :: "FillRow list \<Rightarrow> (string \<times> FillRow list) list" where
  "groupByUser fills = foldl pushUserFill [] fills"

fun volumeOf :: "FillRow list \<Rightarrow> rat \<Rightarrow> rat" where
  "volumeOf [] acc = acc"
| "volumeOf (fill # rest) acc = volumeOf rest (acc + decimal_multiply (fr_px fill) (fr_sz fill))"

fun closedPnlOf :: "FillRow list \<Rightarrow> rat \<Rightarrow> rat" where
  "closedPnlOf [] acc = acc"
| "closedPnlOf (fill # rest) acc =
     closedPnlOf rest (case fr_closedPnl fill of None \<Rightarrow> acc | Some p \<Rightarrow> decimal_add acc p)"

text \<open>The metric of one account; \<open>equitySnapshot\<close> is what \<^verbatim>\<open>equitySnapshot.findFirst\<close>
  found for it.\<close>

definition metricValueOf :: "LeaderboardQuery \<Rightarrow> metric \<Rightarrow> rat option \<Rightarrow> FillRow list \<Rightarrow> error + rat" where
  "metricValueOf q m equitySnapshot filteredFills =
     (case m of
        Volume \<Rightarrow> Inr (volumeOf filteredFills 0)
      | Pnl \<Rightarrow> Inr (closedPnlOf filteredFills 0)
      | OtherMetric \<Rightarrow> Inr 0
      | ReturnPct \<Rightarrow>
          (case lq_fromMs q of
             None \<Rightarrow> Inr 0
           | Some _ \<Rightarrow>
               if equityAtFromMs equitySnapshot > 0 then
                 (case decimal_divide (closedPnlOf filteredFills 0)
                         (effectiveCapital (equityAtFromMs equitySnapshot)
                            (lq_maxStartCapital q)) of
                    Inl e \<Rightarrow> Inl e
                  | Inr d \<Rightarrow> Inr (decimal_multiply d 100))
               else Inr 0))"

text \<open>
  The loop over the accounts. \<open>lifecyclesOf u\<close> are the lifecycles the lifecycle query of the
  request returns for account \<open>u\<close> (\<open>findLifecycles\<close> in the route), \<open>equityOf u\<close> its equity
  snapshot. An account is skipped
  (\<^verbatim>\<open>continue\<close>) when it is tainted in builder-only mode or has no fill left.
\<close>

fun leaderboardLoop ::
  "LeaderboardQuery \<Rightarrow> metric \<Rightarrow> (string \<Rightarrow> LifecycleRow list) \<Rightarrow> (string \<Rightarrow> rat option) \<Rightarrow>
   (string \<times> FillRow list) list \<Rightarrow> LeaderboardData list \<Rightarrow> error + LeaderboardData list" where
  "leaderboardLoop q m lifecyclesOf equityOf [] leaderboardData = Inr leaderboardData"
| "leaderboardLoop q m lifecyclesOf equityOf ((u, userFillsList) # rest) leaderboardData =
     (let isTaintedUser = (lq_builderOnly q \<and> list_ex isTainted (lifecyclesOf u)) in
      if lq_builderOnly q \<and> isTaintedUser
      then leaderboardLoop q m lifecyclesOf equityOf rest leaderboardData
      else
        let filteredFills =
              (if lq_builderOnly q
               then filter (keepBuilderFill (taintedRanges (lifecyclesOf u) Map.empty)) userFillsList
               else userFillsList)
        in if filteredFills = []
           then leaderboardLoop q m lifecyclesOf equityOf rest leaderboardData
           else
             (case metricValueOf q m (equityOf u) filteredFills of
                Inl e \<Rightarrow> Inl e
              | Inr mv \<Rightarrow>
                  leaderboardLoop q m lifecyclesOf equityOf rest
                    (leaderboardData @
                       [\<lparr>ld_user = u, ld_metricValue = mv,
                         ld_tradeCount = length filteredFills, ld_tainted = isTaintedUser\<rparr>])))"

text \<open>
  \<^verbatim>\<open>leaderboardData.sort((a, b) => b.metricValue - a.metricValue)\<close>, a stable sort by
  descending metric value, then \<^verbatim>\<open>map((entry, index) => ({ rank: index + 1, ... }))\<close>.
\<close>

definition sortLeaderboard :: "LeaderboardData list \<Rightarrow> LeaderboardData list" where
  "sortLeaderboard leaderboardData = sort_key (\<lambda>e. - ld_metricValue e) leaderboardData"

definition rankEntries :: "LeaderboardData list \<Rightarrow> LeaderboardEntry list" where
  "rankEntries leaderboardData =
     map (\<lambda>(index, entry).
            \<lparr>le_rank = index + 1, le_user = ld_user entry, le_metricValue = ld_metricValue entry,
             le_tradeCount = ld_tradeCount entry, le_tainted = ld_tainted entry\<rparr>)
         (enumerate 0 (sortLeaderboard leaderboardData))"

text \<open>The route on the fill table and the lifecycle table; a thrown error is caught and
  answered with status 500.\<close>

definition leaderboardRoute ::
  "LeaderboardQuery \<Rightarrow> FillRow list \<Rightarrow> LifecycleRow list \<Rightarrow> (string \<Rightarrow> rat option) \<Rightarrow>
   LeaderboardEntry list reply" where
  "leaderboardRoute q fillTable lifecycleTable equityOf =
     (case lq_metric q of
        None \<Rightarrow> BadRequest
      | Some m \<Rightarrow>
          (case leaderboardLoop q m (findLifecycles q lifecycleTable) equityOf
                  (groupByUser (filter (fillMatches (lq_coin q) (lq_fromMs q) (lq_toMs q)) fillTable))
                  [] of
             Inl e \<Rightarrow> InternalServerError
           | Inr leaderboardData \<Rightarrow> Ok (rankEntries leaderboardData)))"

section \<open>The properties, in the words of the specification\<close>

text \<open>A timestamp lies inside the interval [startTime, endTime] of a lifecycle; an absent
  endTime extends the interval to infinity.\<close>

definition inLifecycle :: "int \<Rightarrow> LifecycleRow \<Rightarrow> bool" where
  "inLifecycle t l = (lc_startMs l \<le> t \<and> (case lc_endMs l of None \<Rightarrow> True | Some e \<Rightarrow> t \<le> e))"

text \<open>A stored fill carries a positive attribution fee.\<close>

definition attributed :: "FillRow \<Rightarrow> bool" where
  "attributed fill = (case fr_builderFee fill of None \<Rightarrow> False | Some bf \<Rightarrow> 0 < bf)"

text \<open>The timestamp of a fill lies inside a tainted lifecycle of its instrument.\<close>

definition inTaintedLifecycle :: "LifecycleRow list \<Rightarrow> FillRow \<Rightarrow> bool" where
  "inTaintedLifecycle lcs fill =
     (\<exists>l \<in> set lcs. isTainted l \<and> lc_coin l = fr_coin fill \<and> inLifecycle (fr_timeMs fill) l)"

text \<open>The lifecycles of the instrument of a position snapshot whose interval holds its
  timestamp.\<close>

definition holds :: "PositionRow \<Rightarrow> LifecycleRow \<Rightarrow> bool" where
  "holds p l = (lc_coin l = pos_coin p \<and> inLifecycle (pos_timeMs p) l)"

text \<open>At most one lifecycle is open.\<close>

definition atMostOneOpen :: "LifecycleRow list \<Rightarrow> bool" where
  "atMostOneOpen ls = (length (filter (\<lambda>l. lc_endMs l = None) ls) \<le> 1)"

text \<open>Two lifecycles overlap when their intervals [startTime, endTime] share a point.\<close>

definition notAfter :: "int \<Rightarrow> int option \<Rightarrow> bool" where
  "notAfter t e = (case e of None \<Rightarrow> True | Some x \<Rightarrow> t \<le> x)"

definition overlap :: "LifecycleRow \<Rightarrow> LifecycleRow \<Rightarrow> bool" where
  "overlap a b = (notAfter (lc_startMs a) (lc_endMs b) \<and> notAfter (lc_startMs b) (lc_endMs a))"

fun nonOverlapping :: "LifecycleRow list \<Rightarrow> bool" where
  "nonOverlapping [] = True"
| "nonOverlapping (l # ls) = ((\<forall>m \<in> set ls. \<not> overlap l m) \<and> nonOverlapping ls)"

text \<open>Every closed lifecycle starts strictly before it ends.\<close>

definition closedAfterStart :: "LifecycleRow list \<Rightarrow> bool" where
  "closedAfterStart ls =
     (\<forall>l \<in> set ls. case lc_endMs l of None \<Rightarrow> True | Some e \<Rightarrow> lc_startMs l < e)"

subsection \<open>Loop invariants of the tracker\<close>

text \<open>Independent of the timestamps: the open rows are those of the current lifecycle, which
  exists exactly while the net size is not zero.\<close>

definition currentInv :: "Vars \<times> Db \<Rightarrow> bool" where
  "currentInv s =
     ((\<forall>l \<in> set (lifecycles (snd s)). lc_id l < nextId (snd s)) \<and>
      (\<forall>l \<in> set (lifecycles (snd s)).
         (lc_endMs l = None) = (currentLifecycleId (fst s) = Some (lc_id l))) \<and>
      ((currentLifecycleId (fst s) = None) = (netSize (fst s) = 0)) \<and>
      atMostOneOpen (lifecycles (snd s)))"

text \<open>With every fill so far at or before \<open>t\<close>: the rows lie at or before \<open>t\<close>, the closed
  ones end after they start, and no two overlap.\<close>

definition timeInv :: "int \<Rightarrow> Vars \<times> Db \<Rightarrow> bool" where
  "timeInv t s =
     ((\<forall>l \<in> set (lifecycles (snd s)).
         lc_startMs l \<le> t \<and>
         (case lc_endMs l of None \<Rightarrow> True | Some e \<Rightarrow> lc_startMs l < e \<and> e \<le> t)) \<and>
      nonOverlapping (lifecycles (snd s)))"

section \<open>Scenarios\<close>

definition btcFill :: "int \<Rightarrow> side \<Rightarrow> rat \<Rightarrow> rat \<Rightarrow> rat option \<Rightarrow> Fill" where
  "btcFill t s p z bf =
     \<lparr>timeMs = t, coin = ''BTC'', side = s, px = p, sz = z, fee = 0, closedPnl = None,
      builderFee = bf, tid = None, user = None\<rparr>"

text \<open>One attributed buy, one unattributed buy, one closing sell.\<close>

definition taintedScenario :: "Fill list" where
  "taintedScenario =
     [btcFill 1000 B 50000 1 (Some (1 / 2)), btcFill 2000 B 52000 1 None,
      btcFill 3000 A 53000 2 (Some (1 / 2))]"

definition singleBuy :: "Fill list" where
  "singleBuy = [btcFill 1000 B 50000 1 None]"

text \<open>A buy and the closing sell in the same millisecond.\<close>

definition sameInstant :: "Fill list" where
  "sameInstant = [btcFill 1000 B 50000 1 None, btcFill 1000 A 50000 1 None]"

text \<open>A mixed lifecycle is closed, and a new position is opened by an attributed buy, in the
  same millisecond.\<close>

definition reopenAtClose :: "Fill list" where
  "reopenAtClose =
     [btcFill 1000 B 50000 1 (Some (1 / 2)), btcFill 1500 B 50000 1 None,
      btcFill 2000 A 50000 2 (Some (1 / 2)), btcFill 2000 B 50000 1 (Some (1 / 2))]"

text \<open>Open, close, open again, at three different times.\<close>

definition twoLifecycles :: "Fill list" where
  "twoLifecycles =
     [btcFill 1000 B 50000 1 None, btcFill 2000 A 51000 1 None, btcFill 3000 B 52000 1 None]"

text \<open>Two fills in the same millisecond, in both orders.\<close>

definition tiedFills :: "Fill list" where
  "tiedFills =
     [btcFill 1000 B 100 1 None, btcFill 2000 A 200 1 None, btcFill 2000 B 300 1 None]"

definition tiedFillsShuffled :: "Fill list" where
  "tiedFillsShuffled =
     [btcFill 1000 B 100 1 None, btcFill 2000 B 300 1 None, btcFill 2000 A 200 1 None]"

text \<open>The three fills of \<open>taintedScenario\<close> in another order.\<close>

definition taintedScenarioShuffled :: "Fill list" where
  "taintedScenarioShuffled =
     [btcFill 3000 A 53000 2 (Some (1 / 2)), btcFill 1000 B 50000 1 (Some (1 / 2)),
      btcFill 2000 B 52000 1 None]"

text \<open>The last snapshot and the second lifecycle that the tracker leaves after
  \<open>reopenAtClose\<close>.\<close>

definition snapshotAtReopen :: PositionRow where
  "snapshotAtReopen =
     \<lparr>pos_user = ''0xabc'', pos_coin = ''BTC'', pos_timeMs = 2000, pos_netSize = 1,
      pos_avgEntryPx = 50000\<rparr>"

definition reopenedLifecycle :: LifecycleRow where
  "reopenedLifecycle =
     \<lparr>lc_id = 2, lc_user = ''0xabc'', lc_coin = ''BTC'', lc_startMs = 2000, lc_endMs = None,
      lc_hasBuilderFills = True, lc_hasNonBuilderFills = False\<rparr>"

text \<open>A closed builder-only lifecycle, then an open tainted one; snapshots inside the first,
  between the two, and inside the second.\<close>

definition cleanThenTainted :: "LifecycleRow list" where
  "cleanThenTainted =
     [\<lparr>lc_id = 1, lc_user = ''0xabc'', lc_coin = ''BTC'', lc_startMs = 1000,
       lc_endMs = Some 2000, lc_hasBuilderFills = True, lc_hasNonBuilderFills = False\<rparr>,
      \<lparr>lc_id = 2, lc_user = ''0xabc'', lc_coin = ''BTC'', lc_startMs = 3000,
       lc_endMs = None, lc_hasBuilderFills = True, lc_hasNonBuilderFills = True\<rparr>]"

definition snapshotAt :: "int \<Rightarrow> PositionRow" where
  "snapshotAt t =
     \<lparr>pos_user = ''0xabc'', pos_coin = ''BTC'', pos_timeMs = t, pos_netSize = 1,
      pos_avgEntryPx = 50000\<rparr>"

text \<open>An account with a tainted BTC lifecycle and a large attributed ETH fill outside it,
  and an account with one attributed fill and no tainted lifecycle.\<close>

definition boardFills :: "FillRow list" where
  "boardFills =
     [\<lparr>fr_timeMs = 1500, fr_user = ''0xaaa'', fr_coin = ''BTC'', fr_side = B, fr_px = 50000,
       fr_sz = 1, fr_fee = 0, fr_closedPnl = None, fr_builderFee = Some 1\<rparr>,
      \<lparr>fr_timeMs = 1600, fr_user = ''0xbbb'', fr_coin = ''BTC'', fr_side = B, fr_px = 50000,
       fr_sz = 2, fr_fee = 0, fr_closedPnl = None, fr_builderFee = Some 1\<rparr>,
      \<lparr>fr_timeMs = 1700, fr_user = ''0xaaa'', fr_coin = ''ETH'', fr_side = B, fr_px = 3000,
       fr_sz = 1000, fr_fee = 0, fr_closedPnl = None, fr_builderFee = Some 1\<rparr>]"

definition taintedBtcLifecycle :: LifecycleRow where
  "taintedBtcLifecycle =
     \<lparr>lc_id = 1, lc_user = ''0xaaa'', lc_coin = ''BTC'', lc_startMs = 1000,
      lc_endMs = Some 2000, lc_hasBuilderFills = True, lc_hasNonBuilderFills = True\<rparr>"

definition boardLifecycles :: "LifecycleRow list" where
  "boardLifecycles =
     [taintedBtcLifecycle,
      \<lparr>lc_id = 2, lc_user = ''0xbbb'', lc_coin = ''BTC'', lc_startMs = 1600,
       lc_endMs = None, lc_hasBuilderFills = True, lc_hasNonBuilderFills = False\<rparr>,
      \<lparr>lc_id = 3, lc_user = ''0xaaa'', lc_coin = ''ETH'', lc_startMs = 1700,
       lc_endMs = None, lc_hasBuilderFills = True, lc_hasNonBuilderFills = False\<rparr>]"

text \<open>A builder-only leaderboard by volume over all coins, and the same for ETH alone.\<close>

definition volumeBoard :: LeaderboardQuery where
  "volumeBoard =
     \<lparr>lq_coin = None, lq_fromMs = None, lq_toMs = None, lq_metric = Some Volume,
      lq_builderOnly = True, lq_maxStartCapital = None\<rparr>"

definition ethBoard :: LeaderboardQuery where
  "ethBoard =
     \<lparr>lq_coin = Some ''ETH'', lq_fromMs = None, lq_toMs = None, lq_metric = Some Volume,
      lq_builderOnly = True, lq_maxStartCapital = None\<rparr>"

text \<open>Three accounts, the first and the third with the same metric value.\<close>

definition tiedBoard :: "LeaderboardData list" where
  "tiedBoard =
     [\<lparr>ld_user = ''0xaaa'', ld_metricValue = 10, ld_tradeCount = 1, ld_tainted = False\<rparr>,
      \<lparr>ld_user = ''0xbbb'', ld_metricValue = 20, ld_tradeCount = 1, ld_tainted = False\<rparr>,
      \<lparr>ld_user = ''0xccc'', ld_metricValue = 10, ld_tradeCount = 1, ld_tainted = False\<rparr>]"

text \<open>The return-cap scenario: one fill with a closed PnL of 5000, a range start, a cap.\<close>

definition capFills :: "FillRow list" where
  "capFills =
     [\<lparr>fr_timeMs = 2000, fr_user = ''0xabc'', fr_coin = ''BTC'', fr_side = A, fr_px = 55000,
       fr_sz = 1, fr_fee = 5, fr_closedPnl = Some 5000, fr_builderFee = None\<rparr>]"

definition capQuery :: "rat option \<Rightarrow> PnLQuery" where
  "capQuery cap =
     \<lparr>pq_user = ''0xabc'', pq_fromMs = Some 1000, pq_builderOnly = False,
      pq_maxStartCapital = cap\<rparr>"

text \<open>A long position of 2 at 51000, then a sell of 3 at 53000.\<close>

definition smallFlip :: "Fill list" where
  "smallFlip = [btcFill 1000 B 51000 2 None, btcFill 2000 A 53000 3 None]"

section \<open>Evaluating the tracker\<close>

lemmas tracker_defs =
  reconstructPositionHistory_def sortFills_def processFill_def openOrFlag_def closeIfFlat_def
  lifecycle_create_def lifecycle_update_def calculateAvgEntryPx_def initVars_def
  isBuilderFill_def signedFillSize_def decimal_add_def decimal_multiply_def decimal_isZero_def
  emptyDb_def Let_def

section \<open>Average entry price\<close>

text \<open>
  C1 (the code departs from the claim). The claim gives the fill's price as the new average
  entry price whenever a fill flips the sign of the position. The function tests
  \<open>\<bar>newSize\<bar> < \<bar>oldSize\<bar>\<close> before it tests for a flip, so a fill that flips the position and
  leaves a smaller size on the other side keeps the old average entry price: long 2 at
  51000, then sell 3 at 53000, gives short 1 at 51000 where the claim gives 53000.
\<close>

theorem calculateAvgEntryPx_small_flip:
  assumes "(0 < oldSize \<and> oldSize + fillSize < 0) \<or> (oldSize < 0 \<and> 0 < oldSize + fillSize)"
    and "\<bar>oldSize + fillSize\<bar> < \<bar>oldSize\<bar>"
  shows "calculateAvgEntryPx oldSize oldAvgPx fillSize fillPx = oldAvgPx"
proof -
  from assms(1) have nz: "oldSize + fillSize \<noteq> 0" "oldSize \<noteq> 0" by auto
  from assms(1)
  have opp: "\<not> ((oldSize > 0 \<and> fillSize > 0) \<or> (oldSize < 0 \<and> fillSize < 0))" by auto
  show ?thesis
    unfolding calculateAvgEntryPx_def Let_def
    by (simp only: nz opp assms(2) if_False if_True)
qed

theorem calculateAvgEntryPx_small_flip_witness:
  "calculateAvgEntryPx 2 51000 (- 3) 53000 = 51000 \<and>
   positions (reconstructPositionHistory ''0xabc'' ''BTC'' smallFlip emptyDb) =
     [\<lparr>pos_user = ''0xabc'', pos_coin = ''BTC'', pos_timeMs = 1000, pos_netSize = 2,
       pos_avgEntryPx = 51000\<rparr>,
      \<lparr>pos_user = ''0xabc'', pos_coin = ''BTC'', pos_timeMs = 2000, pos_netSize = - 1,
       pos_avgEntryPx = 51000\<rparr>]"
proof -
  have "positions (reconstructPositionHistory ''0xabc'' ''BTC'' smallFlip emptyDb) =
     [\<lparr>pos_user = ''0xabc'', pos_coin = ''BTC'', pos_timeMs = 1000, pos_netSize = 2,
       pos_avgEntryPx = 51000\<rparr>,
      \<lparr>pos_user = ''0xabc'', pos_coin = ''BTC'', pos_timeMs = 2000, pos_netSize = - 1,
       pos_avgEntryPx = 51000\<rparr>]"
    by (simp add: tracker_defs smallFlip_def btcFill_def)
  with calculateAvgEntryPx_small_flip [of 2 "- 3" 51000 53000] show ?thesis by simp
qed

text \<open>In every other case the function returns what the case analysis of the claim gives:
  0 when the position becomes flat, the fill's price when it opens, the size-weighted
  average when it grows, the old price on a reduction that keeps the sign, and the fill's
  price on a flip that leaves at least the old size on the other side.\<close>

lemma calculateAvgEntryPx_flat:
  "oldSize + fillSize = 0 \<Longrightarrow> calculateAvgEntryPx oldSize oldAvgPx fillSize fillPx = 0"
  by (simp add: calculateAvgEntryPx_def)

lemma calculateAvgEntryPx_opening:
  "oldSize = 0 \<Longrightarrow> fillSize \<noteq> 0 \<Longrightarrow>
   calculateAvgEntryPx oldSize oldAvgPx fillSize fillPx = fillPx"
  by (simp add: calculateAvgEntryPx_def)

lemma calculateAvgEntryPx_growing:
  "(0 < oldSize \<and> 0 < fillSize) \<or> (oldSize < 0 \<and> fillSize < 0) \<Longrightarrow>
   calculateAvgEntryPx oldSize oldAvgPx fillSize fillPx =
     (\<bar>oldSize\<bar> * oldAvgPx + \<bar>fillSize\<bar> * fillPx) / \<bar>oldSize + fillSize\<bar>"
  by (auto simp: calculateAvgEntryPx_def Let_def)

lemma calculateAvgEntryPx_reducing:
  "(0 < oldSize \<and> fillSize < 0 \<and> 0 < oldSize + fillSize) \<or>
   (oldSize < 0 \<and> 0 < fillSize \<and> oldSize + fillSize < 0) \<Longrightarrow>
   calculateAvgEntryPx oldSize oldAvgPx fillSize fillPx = oldAvgPx"
  by (auto simp: calculateAvgEntryPx_def Let_def)

lemma calculateAvgEntryPx_large_flip:
  "(0 < oldSize \<and> oldSize + fillSize < 0) \<or> (oldSize < 0 \<and> 0 < oldSize + fillSize) \<Longrightarrow>
   \<bar>oldSize\<bar> \<le> \<bar>oldSize + fillSize\<bar> \<Longrightarrow>
   calculateAvgEntryPx oldSize oldAvgPx fillSize fillPx = fillPx"
  by (auto simp: calculateAvgEntryPx_def Let_def)

section \<open>Fills in builder-only mode\<close>

lemma rangesFor_pushRange:
  "rangesFor (pushRange m c r) c' = (if c' = c then rangesFor m c @ [r] else rangesFor m c')"
  by (simp add: rangesFor_def pushRange_def)

lemma rangesFor_empty: "rangesFor Map.empty c = []"
  by (simp add: rangesFor_def)

lemma rangesFor_taintedRanges:
  "rangesFor (taintedRanges lcs m) c =
     rangesFor m c @
     map (\<lambda>l. \<lparr>range_start = lc_startMs l, range_end = lc_endMs l\<rparr>)
       (filter (\<lambda>l. isTainted l \<and> lc_coin l = c) lcs)"
  by (induction lcs arbitrary: m) (auto simp: rangesFor_pushRange isTainted_def)

lemma inRanges_iff:
  "inRanges t rs =
     (\<exists>r \<in> set rs. range_start r \<le> t \<and> (case range_end r of None \<Rightarrow> True | Some e \<Rightarrow> t \<le> e))"
  by (induction rs) auto

lemma keepBuilderFill_iff:
  "keepBuilderFill (taintedRanges lcs Map.empty) fill =
     (attributed fill \<and> \<not> inTaintedLifecycle lcs fill)"
  by (auto simp: keepBuilderFill_def attributed_def inTaintedLifecycle_def inRanges_iff
      rangesFor_taintedRanges rangesFor_empty inLifecycle_def split: option.splits)

lemma keepBuilderFill_eq:
  "keepBuilderFill (taintedRanges lcs Map.empty) =
     (\<lambda>fill. attributed fill \<and> \<not> inTaintedLifecycle lcs fill)"
  by (rule ext) (rule keepBuilderFill_iff)

lemma taintedScenario_lifecycles:
  "lifecycles (reconstructPositionHistory ''0xabc'' ''BTC'' taintedScenario emptyDb) =
     [\<lparr>lc_id = 1, lc_user = ''0xabc'', lc_coin = ''BTC'', lc_startMs = 1000,
       lc_endMs = Some 3000, lc_hasBuilderFills = True, lc_hasNonBuilderFills = True\<rparr>]"
  by (simp add: tracker_defs taintedScenario_def btcFill_def)

text \<open>
  C2. In builder-only mode the trade listing and the PnL summary keep, of the fills of the
  request, exactly those that carry a positive builder fee and whose timestamp lies in no
  tainted lifecycle interval [startMs, endMs] of their coin among the lifecycles of the
  request, an interval without endMs being unbounded. In particular, after the tracker has
  run on an attributed buy, an unattributed buy and the closing sell, none of the three
  stored fills is kept, though the first and the last carry a positive builder fee.
\<close>

theorem builderOnly_fills:
  "tradesFills True fills lcs =
     filter (\<lambda>fill. attributed fill \<and> \<not> inTaintedLifecycle lcs fill) fills \<and>
   pnlFills True fills lcs =
     filter (\<lambda>fill. attributed fill \<and> \<not> inTaintedLifecycle lcs fill) fills \<and>
   map attributed (map (storedFill ''0xabc'') taintedScenario) = [True, False, True] \<and>
   tradesFills True (map (storedFill ''0xabc'') taintedScenario)
     (lifecycles (reconstructPositionHistory ''0xabc'' ''BTC'' taintedScenario emptyDb)) = [] \<and>
   pnlFills True (map (storedFill ''0xabc'') taintedScenario)
     (lifecycles (reconstructPositionHistory ''0xabc'' ''BTC'' taintedScenario emptyDb)) = []"
proof -
  have a: "tradesFills True fs ls =
      filter (\<lambda>fill. attributed fill \<and> \<not> inTaintedLifecycle ls fill) fs" for fs ls
    by (simp add: tradesFills_def keepBuilderFill_eq)
  have b: "pnlFills True fs ls =
      filter (\<lambda>fill. attributed fill \<and> \<not> inTaintedLifecycle ls fill) fs" for fs ls
    by (simp add: pnlFills_def keepBuilderFill_eq)
  have c: "filter (\<lambda>fill. attributed fill \<and> \<not> inTaintedLifecycle
        (lifecycles (reconstructPositionHistory ''0xabc'' ''BTC'' taintedScenario emptyDb)) fill)
        (map (storedFill ''0xabc'') taintedScenario) = []"
    unfolding taintedScenario_lifecycles
    by (simp add: inTaintedLifecycle_def isTainted_def inLifecycle_def storedFill_def
        taintedScenario_def btcFill_def attributed_def)
  have d: "map attributed (map (storedFill ''0xabc'') taintedScenario) = [True, False, True]"
    by (simp add: storedFill_def taintedScenario_def btcFill_def attributed_def)
  show ?thesis using a b c d by simp
qed

text \<open>An attributed fill after a closed tainted lifecycle is listed; one inside it, and an
  unattributed one, are not.\<close>

theorem builderOnly_fills_witness:
  "tradesFills True
     [\<lparr>fr_timeMs = 2000, fr_user = ''0xabc'', fr_coin = ''BTC'', fr_side = B, fr_px = 50000,
       fr_sz = 1, fr_fee = 0, fr_closedPnl = None, fr_builderFee = Some 1\<rparr>,
      \<lparr>fr_timeMs = 4000, fr_user = ''0xabc'', fr_coin = ''BTC'', fr_side = B, fr_px = 50000,
       fr_sz = 1, fr_fee = 0, fr_closedPnl = None, fr_builderFee = Some 1\<rparr>,
      \<lparr>fr_timeMs = 5000, fr_user = ''0xabc'', fr_coin = ''BTC'', fr_side = A, fr_px = 50000,
       fr_sz = 1, fr_fee = 0, fr_closedPnl = None, fr_builderFee = None\<rparr>]
     [\<lparr>lc_id = 1, lc_user = ''0xabc'', lc_coin = ''BTC'', lc_startMs = 1000,
       lc_endMs = Some 3000, lc_hasBuilderFills = True, lc_hasNonBuilderFills = True\<rparr>] =
   [\<lparr>fr_timeMs = 4000, fr_user = ''0xabc'', fr_coin = ''BTC'', fr_side = B, fr_px = 50000,
     fr_sz = 1, fr_fee = 0, fr_closedPnl = None, fr_builderFee = Some 1\<rparr>]"
  by (simp add: builderOnly_fills attributed_def inTaintedLifecycle_def isTainted_def
      inLifecycle_def)

section \<open>Running the tracker twice\<close>

text \<open>
  C3 (the code departs from the claim). The claim has a second pass over the same fills leave
  the lifecycle set as it was. The tracker writes position snapshots with an upsert on
  (user, coin, timeMs), and lifecycles with a plain create under a fresh id: after a second
  pass over one buy, the position table is unchanged and the lifecycle table holds two
  rows with the same (user, coin, startMs).
\<close>

theorem reconstruct_twice_duplicates_lifecycle:
  "reconstructPositionHistory ''0xabc'' ''BTC'' singleBuy emptyDb =
     \<lparr>positions =
        [\<lparr>pos_user = ''0xabc'', pos_coin = ''BTC'', pos_timeMs = 1000, pos_netSize = 1,
          pos_avgEntryPx = 50000\<rparr>],
      lifecycles =
        [\<lparr>lc_id = 1, lc_user = ''0xabc'', lc_coin = ''BTC'', lc_startMs = 1000, lc_endMs = None,
          lc_hasBuilderFills = False, lc_hasNonBuilderFills = True\<rparr>],
      nextId = 2\<rparr> \<and>
   reconstructPositionHistory ''0xabc'' ''BTC'' singleBuy
     (reconstructPositionHistory ''0xabc'' ''BTC'' singleBuy emptyDb) =
     \<lparr>positions =
        [\<lparr>pos_user = ''0xabc'', pos_coin = ''BTC'', pos_timeMs = 1000, pos_netSize = 1,
          pos_avgEntryPx = 50000\<rparr>],
      lifecycles =
        [\<lparr>lc_id = 1, lc_user = ''0xabc'', lc_coin = ''BTC'', lc_startMs = 1000, lc_endMs = None,
          lc_hasBuilderFills = False, lc_hasNonBuilderFills = True\<rparr>,
         \<lparr>lc_id = 2, lc_user = ''0xabc'', lc_coin = ''BTC'', lc_startMs = 1000, lc_endMs = None,
          lc_hasBuilderFills = False, lc_hasNonBuilderFills = True\<rparr>],
      nextId = 3\<rparr>"
  by (simp add: tracker_defs singleBuy_def btcFill_def)

section \<open>Lifecycle invariants\<close>

lemma processFill_netSize:
  "netSize (fst (processFill u c f s)) = netSize (fst s) + signedFillSize f"
  by (simp add: processFill_def openOrFlag_def closeIfFlat_def Let_def decimal_add_def
      decimal_isZero_def lifecycle_create_def split: option.splits)

lemma processFill_open:
  assumes "netSize (fst s) = 0" "signedFillSize f \<noteq> 0" "currentLifecycleId (fst s) = None"
  shows "lifecycles (snd (processFill u c f s)) =
           lifecycles (snd s) @
             [\<lparr>lc_id = nextId (snd s), lc_user = u, lc_coin = c, lc_startMs = timeMs f,
               lc_endMs = None, lc_hasBuilderFills = isBuilderFill f,
               lc_hasNonBuilderFills = (\<not> isBuilderFill f)\<rparr>]"
    and "nextId (snd (processFill u c f s)) = Suc (nextId (snd s))"
    and "currentLifecycleId (fst (processFill u c f s)) = Some (nextId (snd s))"
  using assms
  by (simp_all add: processFill_def openOrFlag_def closeIfFlat_def Let_def decimal_add_def
      decimal_isZero_def lifecycle_create_def)

lemma processFill_close:
  assumes "netSize (fst s) \<noteq> 0" "netSize (fst s) + signedFillSize f = 0"
    "currentLifecycleId (fst s) = Some i"
  shows "lifecycles (snd (processFill u c f s)) =
           map (\<lambda>r. if lc_id r = i
                     then r\<lparr>lc_endMs := Some (timeMs f),
                            lc_hasBuilderFills :=
                              (if isBuilderFill f then True else hasBuilderFills (fst s)),
                            lc_hasNonBuilderFills :=
                              (if \<not> isBuilderFill f then True else hasNonBuilderFills (fst s))\<rparr>
                     else r) (lifecycles (snd s))"
    and "nextId (snd (processFill u c f s)) = nextId (snd s)"
    and "currentLifecycleId (fst (processFill u c f s)) = None"
  using assms
  by (simp_all add: processFill_def openOrFlag_def closeIfFlat_def Let_def decimal_add_def
      decimal_isZero_def lifecycle_update_def)

lemma processFill_keep:
  assumes "(netSize (fst s) = 0) = (netSize (fst s) + signedFillSize f = 0)"
    "(currentLifecycleId (fst s) = None) = (netSize (fst s) = 0)"
  shows "lifecycles (snd (processFill u c f s)) = lifecycles (snd s)"
    and "nextId (snd (processFill u c f s)) = nextId (snd s)"
    and "currentLifecycleId (fst (processFill u c f s)) = currentLifecycleId (fst s)"
  using assms
  by (auto simp add: processFill_def openOrFlag_def closeIfFlat_def Let_def decimal_add_def
      decimal_isZero_def split: option.splits)


lemma nonOverlapping_snoc:
  "nonOverlapping (ls @ [x]) = (nonOverlapping ls \<and> (\<forall>l \<in> set ls. \<not> overlap l x))"
  by (induction ls) auto

lemma nonOverlapping_map:
  "(\<And>a b. a \<in> set ls \<Longrightarrow> b \<in> set ls \<Longrightarrow> overlap (g a) (g b) \<Longrightarrow> overlap a b) \<Longrightarrow>
   nonOverlapping ls \<Longrightarrow> nonOverlapping (map g ls)"
  by (induction ls) auto

lemma currentInv_processFill:
  assumes "currentInv s"
  shows "currentInv (processFill u c f s)"
proof -
  let ?old = "netSize (fst s)" and ?new = "netSize (fst s) + signedFillSize f"
  from assms have ids: "\<forall>l \<in> set (lifecycles (snd s)). lc_id l < nextId (snd s)"
    and cur: "\<forall>l \<in> set (lifecycles (snd s)).
                (lc_endMs l = None) = (currentLifecycleId (fst s) = Some (lc_id l))"
    and link: "(currentLifecycleId (fst s) = None) = (?old = 0)"
    and amo: "atMostOneOpen (lifecycles (snd s))"
    by (simp_all add: currentInv_def)
  consider (opens) "?old = 0" "?new \<noteq> 0" | (closes) "?old \<noteq> 0" "?new = 0"
    | (keeps) "(?old = 0) = (?new = 0)" by blast
  then show ?thesis
  proof cases
    case opens
    then have sf: "signedFillSize f \<noteq> 0" and none: "currentLifecycleId (fst s) = None"
      using link by auto
    from cur none have closed: "\<forall>l \<in> set (lifecycles (snd s)). lc_endMs l \<noteq> None" by simp
    then have "filter (\<lambda>l. lc_endMs l = None) (lifecycles (snd s)) = []"
      by (simp add: filter_empty_conv)
    with ids closed show ?thesis
      unfolding currentInv_def processFill_netSize
        processFill_open [OF opens(1) sf none] atMostOneOpen_def
      using opens(2) by auto
  next
    case closes
    then obtain i where i: "currentLifecycleId (fst s) = Some i" using link by auto
    have "filter (\<lambda>l. lc_endMs l = None) (lifecycles (snd (processFill u c f s))) = []"
      unfolding processFill_close(1) [OF closes i]
      using cur i by (auto simp add: filter_empty_conv)
    moreover have "\<forall>l \<in> set (lifecycles (snd (processFill u c f s))). lc_endMs l \<noteq> None"
      unfolding processFill_close(1) [OF closes i]
      using cur i by auto
    moreover have "\<forall>l \<in> set (lifecycles (snd (processFill u c f s))). lc_id l < nextId (snd s)"
      unfolding processFill_close(1) [OF closes i]
      using ids by auto
    ultimately show ?thesis
      unfolding currentInv_def processFill_netSize processFill_close(2,3) [OF closes i]
        atMostOneOpen_def
      using closes(2) by simp
  next
    case keeps
    show ?thesis
      unfolding currentInv_def processFill_netSize processFill_keep [OF keeps link]
      using ids cur link amo keeps by simp
  qed
qed

lemma timeInv_processFill:
  assumes inv: "currentInv s" and tinv: "timeInv t s" and lt: "t < timeMs f"
  shows "timeInv (timeMs f) (processFill u c f s)"
proof -
  let ?old = "netSize (fst s)" and ?new = "netSize (fst s) + signedFillSize f"
  let ?L = "lifecycles (snd s)"
  from inv have cur: "\<forall>l \<in> set ?L. (lc_endMs l = None) = (currentLifecycleId (fst s) = Some (lc_id l))"
    and link: "(currentLifecycleId (fst s) = None) = (?old = 0)"
    by (simp_all add: currentInv_def)
  from tinv have times: "\<forall>l \<in> set ?L. lc_startMs l \<le> t \<and>
         (case lc_endMs l of None \<Rightarrow> True | Some e \<Rightarrow> lc_startMs l < e \<and> e \<le> t)"
    and nov: "nonOverlapping ?L"
    by (simp_all add: timeInv_def)
  from times lt have times': "\<forall>l \<in> set ?L. lc_startMs l \<le> timeMs f \<and>
         (case lc_endMs l of None \<Rightarrow> True | Some e \<Rightarrow> lc_startMs l < e \<and> e \<le> timeMs f)"
    by (auto split: option.splits)
  consider (opens) "?old = 0" "?new \<noteq> 0" | (closes) "?old \<noteq> 0" "?new = 0"
    | (keeps) "(?old = 0) = (?new = 0)" by blast
  then show ?thesis
  proof cases
    case opens
    then have sf: "signedFillSize f \<noteq> 0" and none: "currentLifecycleId (fst s) = None"
      using link by auto
    from cur none have closed: "\<forall>l \<in> set ?L. lc_endMs l \<noteq> None" by simp
    have "\<not> overlap l \<lparr>lc_id = nextId (snd s), lc_user = u, lc_coin = c, lc_startMs = timeMs f,
               lc_endMs = None, lc_hasBuilderFills = isBuilderFill f,
               lc_hasNonBuilderFills = (\<not> isBuilderFill f)\<rparr>" if "l \<in> set ?L" for l
    proof -
      from closed that obtain e where e: "lc_endMs l = Some e" by auto
      with times that have "e \<le> t" by fastforce
      with lt e show ?thesis by (simp add: overlap_def notAfter_def)
    qed
    then show ?thesis
      unfolding timeInv_def processFill_open(1) [OF opens(1) sf none]
      using times' nov by (simp add: nonOverlapping_snoc)
  next
    case closes
    then obtain i where i: "currentLifecycleId (fst s) = Some i" using link by auto
    let ?g = "\<lambda>r. if lc_id r = i
                     then r\<lparr>lc_endMs := Some (timeMs f),
                            lc_hasBuilderFills :=
                              (if isBuilderFill f then True else hasBuilderFills (fst s)),
                            lc_hasNonBuilderFills :=
                              (if \<not> isBuilderFill f then True else hasNonBuilderFills (fst s))\<rparr>
                     else r"
    have st: "lc_startMs (?g r) = lc_startMs r" for r by simp
    have en: "notAfter x (lc_endMs r)" if "r \<in> set ?L" "notAfter x (lc_endMs (?g r))" for r x
    proof (cases "lc_id r = i")
      case True
      with cur i that(1) have "lc_endMs r = None" by simp
      then show ?thesis by (simp add: notAfter_def)
    next
      case False
      with that(2) show ?thesis by simp
    qed
    have mono: "overlap a b" if "a \<in> set ?L" "b \<in> set ?L" "overlap (?g a) (?g b)" for a b
      using that en [of a "lc_startMs b"] en [of b "lc_startMs a"]
      unfolding overlap_def st by blast
    have "nonOverlapping (map ?g ?L)"
      using mono nov by (rule nonOverlapping_map)
    moreover have "\<forall>r \<in> set (map ?g ?L). lc_startMs r \<le> timeMs f \<and>
         (case lc_endMs r of None \<Rightarrow> True | Some e \<Rightarrow> lc_startMs r < e \<and> e \<le> timeMs f)"
    proof
      fix r
      assume "r \<in> set (map ?g ?L)"
      then have "r \<in> ?g ` set ?L" by (simp only: set_map)
      then obtain l where l: "l \<in> set ?L" and r: "r = ?g l" by (rule imageE)
      show "lc_startMs r \<le> timeMs f \<and>
         (case lc_endMs r of None \<Rightarrow> True | Some e \<Rightarrow> lc_startMs r < e \<and> e \<le> timeMs f)"
      proof (cases "lc_id l = i")
        case True
        from times l have "lc_startMs l \<le> t" by blast
        with lt True r show ?thesis by simp
      next
        case False
        with r have "r = l" by simp
        with times' l show ?thesis by blast
      qed
    qed
    moreover have "lifecycles (snd (processFill u c f s)) = map ?g ?L"
      by (rule processFill_close(1) [OF closes i])
    ultimately show ?thesis
      unfolding timeInv_def by (simp only: simp_thms)
  next
    case keeps
    show ?thesis
      unfolding timeInv_def processFill_keep(1) [OF keeps link]
      using times' nov by simp
  qed
qed

lemma currentInv_processFills:
  "currentInv s \<Longrightarrow> currentInv (processFills u c fs s)"
  by (induction fs arbitrary: s) (simp_all add: currentInv_processFill)

lemma timeInv_processFills:
  "currentInv s \<Longrightarrow> timeInv t s \<Longrightarrow> sorted_wrt (<) (map timeMs fs) \<Longrightarrow>
   \<forall>f \<in> set fs. t < timeMs f \<Longrightarrow> \<exists>t'. timeInv t' (processFills u c fs s)"
proof (induction fs arbitrary: s t)
  case Nil
  then show ?case by auto
next
  case (Cons f fs)
  have "currentInv (processFill u c f s)"
    using Cons.prems(1) by (rule currentInv_processFill)
  moreover have "timeInv (timeMs f) (processFill u c f s)"
    using Cons.prems by (simp add: timeInv_processFill)
  moreover have "sorted_wrt (<) (map timeMs fs)" "\<forall>g \<in> set fs. timeMs f < timeMs g"
    using Cons.prems(3) by auto
  ultimately show ?case
    using Cons.IH [of "processFill u c f s" "timeMs f"] by simp
qed

lemma strict_sortFills:
  "distinct (map timeMs fills) \<Longrightarrow> sorted_wrt (<) (map timeMs (sortFills fills))"
proof -
  assume d: "distinct (map timeMs fills)"
  have "mset (map timeMs (sortFills fills)) = mset (map timeMs fills)"
    by (simp add: sortFills_def)
  then have "distinct (map timeMs (sortFills fills))"
    using d by (metis mset_eq_imp_distinct_iff)
  moreover have "sorted (map timeMs (sortFills fills))"
    by (simp add: sortFills_def)
  ultimately show ?thesis
    by (simp add: strict_sorted_iff)
qed

lemma below_all: "\<exists>t::int. \<forall>f \<in> set (fs :: Fill list). t < timeMs f"
proof (induction fs)
  case Nil
  then show ?case by simp
next
  case (Cons f fs)
  then obtain t where "\<forall>g \<in> set fs. t < timeMs g" by blast
  then have "\<forall>g \<in> set (f # fs). min t (timeMs f - 1) < timeMs g" by auto
  then show ?case by blast
qed

lemma currentInv_init: "lifecycles db = [] \<Longrightarrow> currentInv (initVars, db)"
  by (simp add: currentInv_def initVars_def atMostOneOpen_def)

lemma timeInv_init: "lifecycles db = [] \<Longrightarrow> timeInv t (initVars, db)"
  by (simp add: timeInv_def)

lemma lifecycles_reconstruct:
  "\<exists>h. (\<forall>r. lc_startMs (h r) = lc_startMs r \<and> lc_endMs (h r) = lc_endMs r) \<and>
       lifecycles (reconstructPositionHistory u c fills db) =
         map h (lifecycles (snd (processFills u c (sortFills fills) (initVars, db))))"
proof (cases "fills = []")
  case True
  then show ?thesis
    by (auto simp: reconstructPositionHistory_def sortFills_def intro!: exI [of _ "\<lambda>r. r"])
next
  case False
  show ?thesis
  proof (cases "currentLifecycleId (fst (processFills u c (sortFills fills) (initVars, db)))")
    case None
    with False show ?thesis
      by (auto simp: reconstructPositionHistory_def Let_def intro!: exI [of _ "\<lambda>r. r"])
  next
    case (Some i)
    let ?s = "processFills u c (sortFills fills) (initVars, db)"
    let ?h = "\<lambda>r. if lc_id r = i
                   then r\<lparr>lc_hasBuilderFills := hasBuilderFills (fst ?s),
                          lc_hasNonBuilderFills := hasNonBuilderFills (fst ?s)\<rparr>
                   else r"
    have "\<forall>r. lc_startMs (?h r) = lc_startMs r \<and> lc_endMs (?h r) = lc_endMs r" by simp
    moreover have "lifecycles (reconstructPositionHistory u c fills db) = map ?h (lifecycles (snd ?s))"
      using False Some by (simp add: reconstructPositionHistory_def Let_def lifecycle_update_def)
    ultimately show ?thesis by (intro exI [of _ ?h] conjI)
  qed
qed

lemma atMostOneOpen_map:
  "(\<forall>r. lc_endMs (h r) = lc_endMs r) \<Longrightarrow> atMostOneOpen (map h ls) = atMostOneOpen ls"
  by (simp add: atMostOneOpen_def filter_map o_def)

lemma closedAfterStart_map:
  "(\<forall>r. lc_startMs (h r) = lc_startMs r \<and> lc_endMs (h r) = lc_endMs r) \<Longrightarrow>
   closedAfterStart (map h ls) = closedAfterStart ls"
  by (auto simp add: closedAfterStart_def split: option.splits)

lemma nonOverlapping_map_same:
  "(\<forall>r. lc_startMs (h r) = lc_startMs r \<and> lc_endMs (h r) = lc_endMs r) \<Longrightarrow>
   nonOverlapping ls \<Longrightarrow> nonOverlapping (map h ls)"
  by (rule nonOverlapping_map) (simp_all add: overlap_def)

text \<open>
  C4 (amended). The claim asks the three lifecycle invariants of every fill sequence. Two
  of them fail when fills share a timestamp; what the tracker guarantees, for a pass that
  starts on an empty lifecycle table, is: at most one lifecycle is open, whatever the
  fills; and when the timestamps of the fills are pairwise distinct, no two lifecycles
  have overlapping intervals [startMs, endMs] and every closed lifecycle has
  startMs < endMs.
\<close>

theorem lifecycle_invariants:
  assumes "lifecycles db = []"
  shows "atMostOneOpen (lifecycles (reconstructPositionHistory u c fills db)) \<and>
         (distinct (map timeMs fills) \<longrightarrow>
            nonOverlapping (lifecycles (reconstructPositionHistory u c fills db)) \<and>
            closedAfterStart (lifecycles (reconstructPositionHistory u c fills db)))"
proof -
  let ?s = "processFills u c (sortFills fills) (initVars, db)"
  obtain h where h: "\<forall>r. lc_startMs (h r) = lc_startMs r \<and> lc_endMs (h r) = lc_endMs r"
    and eq: "lifecycles (reconstructPositionHistory u c fills db) = map h (lifecycles (snd ?s))"
    using lifecycles_reconstruct by blast
  have ci: "currentInv ?s"
    using assms by (simp add: currentInv_processFills currentInv_init)
  then have one: "atMostOneOpen (lifecycles (snd ?s))" by (simp add: currentInv_def)
  have two: "nonOverlapping (lifecycles (snd ?s)) \<and> closedAfterStart (lifecycles (snd ?s))"
    if d: "distinct (map timeMs fills)"
  proof -
    obtain t where t: "\<forall>f \<in> set (sortFills fills). t < timeMs f"
      using below_all by blast
    have "\<exists>t'. timeInv t' ?s"
      using currentInv_init [OF assms] timeInv_init [OF assms] strict_sortFills [OF d] t
      by (rule timeInv_processFills)
    then show ?thesis
      by (auto simp: timeInv_def closedAfterStart_def split: option.splits)
  qed
  show ?thesis
    unfolding eq using h one two
    by (simp add: atMostOneOpen_map closedAfterStart_map nonOverlapping_map_same)
qed

lemma twoLifecycles_lifecycles:
  "lifecycles (reconstructPositionHistory ''0xabc'' ''BTC'' twoLifecycles emptyDb) =
     [\<lparr>lc_id = 1, lc_user = ''0xabc'', lc_coin = ''BTC'', lc_startMs = 1000,
       lc_endMs = Some 2000, lc_hasBuilderFills = False, lc_hasNonBuilderFills = True\<rparr>,
      \<lparr>lc_id = 2, lc_user = ''0xabc'', lc_coin = ''BTC'', lc_startMs = 3000,
       lc_endMs = None, lc_hasBuilderFills = False, lc_hasNonBuilderFills = True\<rparr>]"
  by (simp add: tracker_defs twoLifecycles_def btcFill_def)

theorem lifecycle_invariants_witness:
  "length (lifecycles (reconstructPositionHistory ''0xabc'' ''BTC'' twoLifecycles emptyDb)) = 2 \<and>
   atMostOneOpen (lifecycles (reconstructPositionHistory ''0xabc'' ''BTC'' twoLifecycles emptyDb)) \<and>
   nonOverlapping (lifecycles (reconstructPositionHistory ''0xabc'' ''BTC'' twoLifecycles emptyDb)) \<and>
   closedAfterStart (lifecycles (reconstructPositionHistory ''0xabc'' ''BTC'' twoLifecycles emptyDb))"
proof -
  have e: "lifecycles emptyDb = []" by (simp add: emptyDb_def)
  have d: "distinct (map timeMs twoLifecycles)" by (simp add: twoLifecycles_def btcFill_def)
  have n: "length (lifecycles (reconstructPositionHistory ''0xabc'' ''BTC'' twoLifecycles emptyDb)) = 2"
    by (simp add: twoLifecycles_lifecycles)
  from lifecycle_invariants [OF e, of "''0xabc''" "''BTC''" twoLifecycles] d n
  show ?thesis by blast
qed

text \<open>With a buy and its closing sell in one millisecond the closed lifecycle has
  startMs = endMs; with a close and a new open in one millisecond the two lifecycles share
  the point 2000.\<close>

lemma sameInstant_lifecycles:
  "lifecycles (reconstructPositionHistory ''0xabc'' ''BTC'' sameInstant emptyDb) =
     [\<lparr>lc_id = 1, lc_user = ''0xabc'', lc_coin = ''BTC'', lc_startMs = 1000,
       lc_endMs = Some 1000, lc_hasBuilderFills = False, lc_hasNonBuilderFills = True\<rparr>]"
  by (simp add: tracker_defs sameInstant_def btcFill_def)

lemma reopenAtClose_db:
  "reconstructPositionHistory ''0xabc'' ''BTC'' reopenAtClose emptyDb =
     \<lparr>positions =
        [\<lparr>pos_user = ''0xabc'', pos_coin = ''BTC'', pos_timeMs = 1000, pos_netSize = 1,
          pos_avgEntryPx = 50000\<rparr>,
         \<lparr>pos_user = ''0xabc'', pos_coin = ''BTC'', pos_timeMs = 1500, pos_netSize = 2,
          pos_avgEntryPx = 50000\<rparr>,
         \<lparr>pos_user = ''0xabc'', pos_coin = ''BTC'', pos_timeMs = 2000, pos_netSize = 1,
          pos_avgEntryPx = 50000\<rparr>],
      lifecycles =
        [\<lparr>lc_id = 1, lc_user = ''0xabc'', lc_coin = ''BTC'', lc_startMs = 1000,
          lc_endMs = Some 2000, lc_hasBuilderFills = True, lc_hasNonBuilderFills = True\<rparr>,
         \<lparr>lc_id = 2, lc_user = ''0xabc'', lc_coin = ''BTC'', lc_startMs = 2000,
          lc_endMs = None, lc_hasBuilderFills = True, lc_hasNonBuilderFills = False\<rparr>],
      nextId = 3\<rparr>"
  by (simp add: tracker_defs reopenAtClose_def btcFill_def)

theorem lifecycle_invariants_counterexample:
  "\<not> closedAfterStart (lifecycles (reconstructPositionHistory ''0xabc'' ''BTC'' sameInstant emptyDb)) \<and>
   \<not> nonOverlapping (lifecycles (reconstructPositionHistory ''0xabc'' ''BTC'' reopenAtClose emptyDb))"
  by (simp add: sameInstant_lifecycles reopenAtClose_db closedAfterStart_def overlap_def
      notAfter_def)

section \<open>Order of the input\<close>

lemma sortFills_perm:
  assumes "mset fills' = mset fills" "distinct (map timeMs fills)"
  shows "sortFills fills' = sortFills fills"
  unfolding sortFills_def
proof (rule sort_key_inj_key_eq)
  show "mset fills' = mset (sort_key timeMs fills)" using assms(1) by simp
  have "set fills' = set fills" using assms(1) by (rule mset_eq_setD)
  with assms(2) show "inj_on timeMs (set fills')" by (simp add: distinct_map)
  show "sorted (map timeMs (sort_key timeMs fills))" by simp
qed

lemma sortFills_idem: "sortFills (sortFills fills) = sortFills fills"
  by (simp add: sortFills_def sort_key_id_if_sorted)

lemma sortFills_Nil: "(sortFills fills = []) = (fills = [])"
  unfolding sortFills_def by (metis length_sort length_0_conv)

text \<open>
  C9 (amended). The claim has every permutation of the input give the output of the sorted
  input. The tracker sorts by \<^verbatim>\<open>timeMs\<close> alone with a stable sort, so fills with equal
  timestamps are processed in the order of the input, and that order changes the output.
  What holds: when the timestamps of the fills are pairwise distinct, the pass on any
  permutation of the fills, from any database, gives the same database as the pass on the
  timestamp-sorted fills.
\<close>

theorem reconstruct_permutation:
  assumes "distinct (map timeMs fills)" "mset fills' = mset fills"
  shows "reconstructPositionHistory u c fills' db =
         reconstructPositionHistory u c (sortFills fills) db"
proof -
  have "(fills' = []) = (fills = [])" using assms(2) by (metis mset_zero_iff)
  then show ?thesis
    by (simp add: reconstructPositionHistory_def sortFills_perm [OF assms(2,1)]
        sortFills_idem sortFills_Nil)
qed

theorem reconstruct_permutation_witness:
  "sortFills taintedScenario = taintedScenario \<and>
   taintedScenarioShuffled \<noteq> taintedScenario \<and>
   reconstructPositionHistory ''0xabc'' ''BTC'' taintedScenarioShuffled emptyDb =
   reconstructPositionHistory ''0xabc'' ''BTC'' (sortFills taintedScenario) emptyDb"
proof -
  have d: "distinct (map timeMs taintedScenario)"
    by (simp add: taintedScenario_def btcFill_def)
  have m: "mset taintedScenarioShuffled = mset taintedScenario"
    by (simp add: taintedScenario_def taintedScenarioShuffled_def)
  have s: "sortFills taintedScenario = taintedScenario"
    by (simp add: sortFills_def taintedScenario_def btcFill_def)
  have n: "taintedScenarioShuffled \<noteq> taintedScenario"
    by (simp add: taintedScenario_def taintedScenarioShuffled_def btcFill_def)
  from reconstruct_permutation [OF d m, of "''0xabc''" "''BTC''" emptyDb] s n
  show ?thesis by simp
qed

text \<open>The sell and the buy at 2000 in the two orders: the sorted input closes the first
  lifecycle and opens a second, the shuffled input keeps one lifecycle open.\<close>

theorem reconstruct_permutation_counterexample:
  "mset tiedFillsShuffled = mset tiedFills \<and>
   sortFills tiedFills = tiedFills \<and>
   lifecycles (reconstructPositionHistory ''0xabc'' ''BTC'' tiedFillsShuffled emptyDb) \<noteq>
   lifecycles (reconstructPositionHistory ''0xabc'' ''BTC'' tiedFills emptyDb)"
  by (simp add: tracker_defs tiedFills_def tiedFillsShuffled_def btcFill_def)

section \<open>Position history in builder-only mode\<close>

lemma rangesFor_markedRanges:
  "rangesFor (markedRanges lcs m) c =
     rangesFor m c @
     map (\<lambda>l. \<lparr>range_start = lc_startMs l, range_end = lc_endMs l,
               range_tainted = isTainted l\<rparr>)
       (filter (\<lambda>l. lc_coin l = c) lcs)"
  by (induction lcs arbitrary: m) (auto simp: rangesFor_pushRange isTainted_def)

lemma inCleanRange_find:
  "inCleanRange t
     (map (\<lambda>l. \<lparr>range_start = lc_startMs l, range_end = lc_endMs l,
               range_tainted = isTainted l\<rparr>)
       (filter (\<lambda>l. lc_coin l = c) lcs)) =
   (case find (\<lambda>l. lc_coin l = c \<and> inLifecycle t l) lcs of
      None \<Rightarrow> False | Some l \<Rightarrow> \<not> isTainted l)"
  by (induction lcs) (auto simp: inLifecycle_def)

lemma keepPosition_find:
  "keepPosition (markedRanges lcs Map.empty) p =
     (case find (holds p) lcs of None \<Rightarrow> False | Some l \<Rightarrow> \<not> isTainted l)"
proof -
  have "holds p = (\<lambda>l. lc_coin l = pos_coin p \<and> inLifecycle (pos_timeMs p) l)"
    by (rule ext) (simp add: holds_def)
  then show ?thesis
    by (simp add: keepPosition_def rangesFor_markedRanges rangesFor_empty inCleanRange_find)
qed

lemma find_SomeD: "find P xs = Some x \<Longrightarrow> x \<in> set xs \<and> P x"
  by (induction xs) (auto split: if_splits)

text \<open>
  C7 (amended). The claim makes a snapshot visible exactly when some non-tainted lifecycle
  interval of its coin holds its timestamp. The route lets the first lifecycle of the coin,
  in the order of the lifecycle query, whose interval holds the timestamp decide: the
  snapshot is visible exactly when that lifecycle exists and is not tainted. Hence a
  visible snapshot lies in a non-tainted lifecycle interval, a snapshot outside all
  lifecycle intervals is excluded, and when no tainted lifecycle interval of the coin holds
  the timestamp, the snapshot is visible exactly when some lifecycle interval holds it.
\<close>

theorem positions_builderOnly:
  "positionsHistory True ps lcs =
     filter (\<lambda>p. case find (holds p) lcs of None \<Rightarrow> False | Some l \<Rightarrow> \<not> isTainted l) ps \<and>
   (p \<in> set (positionsHistory True ps lcs) \<longrightarrow> (\<exists>l \<in> set lcs. holds p l \<and> \<not> isTainted l)) \<and>
   ((\<forall>l \<in> set lcs. \<not> holds p l) \<longrightarrow> p \<notin> set (positionsHistory True ps lcs)) \<and>
   (p \<in> set ps \<and> (\<forall>l \<in> set lcs. holds p l \<longrightarrow> \<not> isTainted l) \<longrightarrow>
      (p \<in> set (positionsHistory True ps lcs)) = (\<exists>l \<in> set lcs. holds p l))"
proof -
  have k: "keepPosition (markedRanges lcs Map.empty) =
    (\<lambda>p. case find (holds p) lcs of None \<Rightarrow> False | Some l \<Rightarrow> \<not> isTainted l)"
    by (rule ext) (rule keepPosition_find)
  have 1: "positionsHistory True ps lcs =
     filter (\<lambda>p. case find (holds p) lcs of None \<Rightarrow> False | Some l \<Rightarrow> \<not> isTainted l) ps"
    by (simp add: positionsHistory_def k)
  have 2: "\<exists>l \<in> set lcs. holds p l \<and> \<not> isTainted l" if "p \<in> set (positionsHistory True ps lcs)"
    using that unfolding 1 by (auto split: option.splits dest: find_SomeD)
  have 3: "p \<notin> set (positionsHistory True ps lcs)" if "\<forall>l \<in> set lcs. \<not> holds p l"
    using that 2 by blast
  have 4: "(p \<in> set (positionsHistory True ps lcs)) = (\<exists>l \<in> set lcs. holds p l)"
    if "p \<in> set ps" "\<forall>l \<in> set lcs. holds p l \<longrightarrow> \<not> isTainted l"
    using that unfolding 1
    by (auto split: option.splits simp: find_None_iff dest: find_SomeD)
  show ?thesis using 1 2 3 4 by blast
qed

theorem positions_builderOnly_witness:
  "positionsHistory True [snapshotAt 1500, snapshotAt 2500, snapshotAt 3500] cleanThenTainted =
     [snapshotAt 1500] \<and>
   snapshotAt 1500 \<in> set (positionsHistory True [snapshotAt 1500, snapshotAt 2500, snapshotAt 3500]
                            cleanThenTainted) \<and>
   snapshotAt 2500 \<notin> set (positionsHistory True [snapshotAt 1500, snapshotAt 2500, snapshotAt 3500]
                            cleanThenTainted)"
proof -
  have a: "\<forall>l \<in> set cleanThenTainted. holds (snapshotAt 1500) l \<longrightarrow> \<not> isTainted l"
    by (simp add: cleanThenTainted_def snapshotAt_def holds_def inLifecycle_def isTainted_def)
  have b: "\<exists>l \<in> set cleanThenTainted. holds (snapshotAt 1500) l"
    by (simp add: cleanThenTainted_def snapshotAt_def holds_def inLifecycle_def)
  have c: "\<forall>l \<in> set cleanThenTainted. \<not> holds (snapshotAt 2500) l"
    by (simp add: cleanThenTainted_def snapshotAt_def holds_def inLifecycle_def)
  have d: "filter (\<lambda>p. case find (holds p) cleanThenTainted of None \<Rightarrow> False
                        | Some l \<Rightarrow> \<not> isTainted l)
             [snapshotAt 1500, snapshotAt 2500, snapshotAt 3500] = [snapshotAt 1500]"
    by (simp add: cleanThenTainted_def snapshotAt_def holds_def inLifecycle_def isTainted_def)
  let ?ps = "[snapshotAt 1500, snapshotAt 2500, snapshotAt 3500]"
  have m: "snapshotAt 1500 \<in> set ?ps" by simp
  from positions_builderOnly [of ?ps cleanThenTainted "snapshotAt 1500"] d
  have 1: "positionsHistory True ?ps cleanThenTainted = [snapshotAt 1500]" by simp
  from positions_builderOnly [of ?ps cleanThenTainted "snapshotAt 1500"] m a b
  have 2: "snapshotAt 1500 \<in> set (positionsHistory True ?ps cleanThenTainted)" by blast
  from positions_builderOnly [of ?ps cleanThenTainted "snapshotAt 2500"] c
  have 3: "snapshotAt 2500 \<notin> set (positionsHistory True ?ps cleanThenTainted)" by blast
  from 1 2 3 show ?thesis by blast
qed

text \<open>After \<open>reopenAtClose\<close> the snapshot at 2000 lies in the open, builder-only lifecycle
  that starts at 2000, and also at the end of the tainted lifecycle [1000, 2000], which
  comes first: the route excludes it.\<close>

theorem positions_builderOnly_counterexample:
  "snapshotAtReopen \<in> set (positions (reconstructPositionHistory ''0xabc'' ''BTC'' reopenAtClose emptyDb)) \<and>
   reopenedLifecycle \<in> set (lifecycles (reconstructPositionHistory ''0xabc'' ''BTC'' reopenAtClose emptyDb)) \<and>
   holds snapshotAtReopen reopenedLifecycle \<and>
   \<not> isTainted reopenedLifecycle \<and>
   snapshotAtReopen \<notin> set (positionsHistory True
      (positions (reconstructPositionHistory ''0xabc'' ''BTC'' reopenAtClose emptyDb))
      (lifecycles (reconstructPositionHistory ''0xabc'' ''BTC'' reopenAtClose emptyDb)))"
  unfolding reopenAtClose_db
  by (simp add: snapshotAtReopen_def reopenedLifecycle_def holds_def inLifecycle_def
      isTainted_def positionsHistory_def keepPosition_def rangesFor_def pushRange_def)

section \<open>Return percentage\<close>

lemma effectiveCapital_zero_iff:
  "0 < e \<Longrightarrow> (effectiveCapital e cap = 0) = (cap = Some 0)"
  by (auto simp: effectiveCapital_def min_def split: option.splits)

lemma calcReturnPct_value:
  "calcReturnPct fromMs es cap pnl =
     (if fromMs \<noteq> None \<and> 0 < equityAtFromMs es
      then (if effectiveCapital (equityAtFromMs es) cap = 0 then Inl DivisionByZero
            else Inr (100 * pnl / effectiveCapital (equityAtFromMs es) cap))
      else Inr 0)"
  by (auto simp: calcReturnPct_def decimal_divide_def decimal_multiply_def
      split: option.splits)

lemma pnlTotals_sums:
  "pnlTotals fs acc =
     (fst acc + (\<Sum>fill\<leftarrow>fs. case fr_closedPnl fill of None \<Rightarrow> 0 | Some p \<Rightarrow> p),
      snd acc + (\<Sum>fill\<leftarrow>fs. fr_fee fill))"
  by (induction fs arbitrary: acc) (auto simp: decimal_add_def split: option.splits)

lemma pnlRoute_value:
  assumes "pq_user q \<noteq> []"
  shows "pnlRoute q fills lcs equitySnapshot =
     (if pq_fromMs q \<noteq> None \<and> 0 < equityAtFromMs equitySnapshot \<and>
         effectiveCapital (equityAtFromMs equitySnapshot) (pq_maxStartCapital q) = 0
      then InternalServerError
      else Ok \<lparr>realizedPnl =
                 (\<Sum>fill\<leftarrow>pnlFills (pq_builderOnly q) fills lcs.
                    case fr_closedPnl fill of None \<Rightarrow> 0 | Some p \<Rightarrow> p),
               returnPct =
                 (if pq_fromMs q \<noteq> None \<and> 0 < equityAtFromMs equitySnapshot
                  then 100 *
                       (\<Sum>fill\<leftarrow>pnlFills (pq_builderOnly q) fills lcs.
                          case fr_closedPnl fill of None \<Rightarrow> 0 | Some p \<Rightarrow> p) /
                       effectiveCapital (equityAtFromMs equitySnapshot) (pq_maxStartCapital q)
                  else 0),
               feesPaid = (\<Sum>fill\<leftarrow>pnlFills (pq_builderOnly q) fills lcs. fr_fee fill),
               tradeCount = length (pnlFills (pq_builderOnly q) fills lcs),
               tainted = (if pq_builderOnly q then Some (list_ex isTainted lcs) else None)\<rparr>)"
  using assms by (simp add: pnlRoute_def calcReturnPct_value pnlTotals_sums Let_def)



lemma returnPct_divisor_nonzero:
  "0 < e \<Longrightarrow> cap \<noteq> Some 0 \<Longrightarrow>
   decimal_divide pnl (effectiveCapital e cap) = Inr (pnl / effectiveCapital e cap)"
  by (simp add: decimal_divide_def effectiveCapital_zero_iff)

text \<open>
  C10 (the code departs from the claim). The claim has the division of the returnPct path
  never reach a zero divisor, a cap of 0 counting as absent. The guard of the route is on
  the equity alone. The cap is the text of the query parameter, and the text \<^verbatim>\<open>0\<close> is
  truthy: with positive equity and \<^verbatim>\<open>maxStartCapital=0\<close> the effective capital is
  min(equity, 0) = 0, \<^verbatim>\<open>decimal.divide\<close> throws, and the route answers with status 500. With
  the cap absent or not 0 the divisor is not zero (\<open>returnPct_divisor_nonzero\<close>).
\<close>

theorem returnPct_division_by_zero:
  assumes "pq_user q \<noteq> []" "pq_fromMs q \<noteq> None" "pq_maxStartCapital q = Some 0"
    and "0 < equityAtFromMs equitySnapshot"
  shows "effectiveCapital (equityAtFromMs equitySnapshot) (pq_maxStartCapital q) = 0 \<and>
         decimal_divide pnl
           (effectiveCapital (equityAtFromMs equitySnapshot) (pq_maxStartCapital q)) =
           Inl DivisionByZero \<and>
         pnlRoute q fills lcs equitySnapshot = InternalServerError"
proof -
  from assms(3,4)
  have z: "effectiveCapital (equityAtFromMs equitySnapshot) (pq_maxStartCapital q) = 0"
    by (simp add: effectiveCapital_zero_iff)
  from z assms show ?thesis
    by (simp add: pnlRoute_value decimal_divide_def)
qed

theorem returnPct_division_by_zero_witness:
  "effectiveCapital 1000000 (Some 0) = 0 \<and>
   decimal_divide 5000 (effectiveCapital 1000000 (Some 0)) = Inl DivisionByZero \<and>
   pnlRoute (capQuery (Some 0)) capFills [] (Some 1000000) = InternalServerError"
proof -
  have a: "pq_user (capQuery (Some 0)) \<noteq> []" "pq_fromMs (capQuery (Some 0)) \<noteq> None"
    "pq_maxStartCapital (capQuery (Some 0)) = Some 0"
    by (simp_all add: capQuery_def)
  have e: "0 < equityAtFromMs (Some 1000000)" "equityAtFromMs (Some 1000000) = 1000000"
    by (simp_all add: equityAtFromMs_def)
  from returnPct_division_by_zero [OF a e(1), of 5000 capFills "[]"] a(3) e(2)
  show ?thesis by (simp add: decimal_divide_def)
qed

section \<open>Leaderboard\<close>

lemma metricValueOf_total:
  "m \<noteq> ReturnPct \<or> lq_maxStartCapital q \<noteq> Some 0 \<Longrightarrow> \<exists>v. metricValueOf q m es fs = Inr v"
  by (cases m)
     (auto simp: metricValueOf_def decimal_divide_def effectiveCapital_zero_iff
       split: option.splits)

lemma leaderboardLoop_users:
  "leaderboardLoop q m lo eo groups acc = Inr d \<Longrightarrow>
   ld_user ` set d \<subseteq>
     ld_user ` set acc \<union> {u. \<not> (lq_builderOnly q \<and> list_ex isTainted (lo u))}"
proof (induction groups arbitrary: acc)
  case Nil
  then show ?case by auto
next
  case (Cons g groups)
  obtain u fs where g: "g = (u, fs)" by (cases g)
  let ?skip = "lq_builderOnly q \<and> list_ex isTainted (lo u)"
  let ?ff = "if lq_builderOnly q
             then filter (keepBuilderFill (taintedRanges (lo u) Map.empty)) fs else fs"
  show ?case
  proof (cases "?skip \<or> ?ff = []")
    case True
    then have "leaderboardLoop q m lo eo ((u, fs) # groups) acc =
               leaderboardLoop q m lo eo groups acc"
      by (cases "lq_builderOnly q") (auto simp: Let_def)
    with Cons.prems g have "leaderboardLoop q m lo eo groups acc = Inr d" by simp
    then show ?thesis by (rule Cons.IH)
  next
    case False
    show ?thesis
    proof (cases "metricValueOf q m (eo u) ?ff")
      case (Inl e)
      with False have "leaderboardLoop q m lo eo ((u, fs) # groups) acc = Inl e"
        by (cases "lq_builderOnly q") (auto simp: Let_def)
      with Cons.prems g show ?thesis by simp
    next
      case (Inr v)
      let ?acc = "acc @ [\<lparr>ld_user = u, ld_metricValue = v, ld_tradeCount = length ?ff,
                          ld_tainted = ?skip\<rparr>]"
      from False Inr
      have "leaderboardLoop q m lo eo ((u, fs) # groups) acc =
            leaderboardLoop q m lo eo groups ?acc"
        by (cases "lq_builderOnly q") (auto simp: Let_def)
      with Cons.prems g have "leaderboardLoop q m lo eo groups ?acc = Inr d" by simp
      then have "ld_user ` set d \<subseteq>
          ld_user ` set ?acc \<union> {u. \<not> (lq_builderOnly q \<and> list_ex isTainted (lo u))}"
        by (rule Cons.IH)
      moreover from False have "ld_user ` set ?acc \<subseteq>
          ld_user ` set acc \<union> {u. \<not> (lq_builderOnly q \<and> list_ex isTainted (lo u))}"
        by auto
      ultimately show ?thesis by blast
    qed
  qed
qed

lemma leaderboardLoop_total:
  assumes "m \<noteq> ReturnPct \<or> lq_maxStartCapital q \<noteq> Some 0"
  shows "\<exists>d. leaderboardLoop q m lo eo groups acc = Inr d"
proof (induction groups arbitrary: acc)
  case Nil
  then show ?case by simp
next
  case (Cons g groups)
  obtain u fs where g: "g = (u, fs)" by (cases g)
  let ?skip = "lq_builderOnly q \<and> list_ex isTainted (lo u)"
  let ?ff = "if lq_builderOnly q
             then filter (keepBuilderFill (taintedRanges (lo u) Map.empty)) fs else fs"
  obtain v where v: "metricValueOf q m (eo u) ?ff = Inr v"
    using metricValueOf_total [OF assms] by blast
  have "leaderboardLoop q m lo eo ((u, fs) # groups) acc = leaderboardLoop q m lo eo groups acc \<or>
        leaderboardLoop q m lo eo ((u, fs) # groups) acc =
          leaderboardLoop q m lo eo groups
            (acc @ [\<lparr>ld_user = u, ld_metricValue = v, ld_tradeCount = length ?ff,
                     ld_tainted = ?skip\<rparr>])"
    using v by (cases "lq_builderOnly q") (auto simp: Let_def)
  then show ?case
    unfolding g using Cons.IH by metis
qed

lemma lifecycleMatches_unfiltered: "lifecycleMatches u None None None l = (lc_user l = u)"
  by (simp add: lifecycleMatches_def)

lemma users_rankEntries: "map le_user (rankEntries d) = map ld_user (sortLeaderboard d)"
proof -
  have "map le_user (map (\<lambda>(index, entry).
            \<lparr>le_rank = index + 1, le_user = ld_user entry, le_metricValue = ld_metricValue entry,
             le_tradeCount = ld_tradeCount entry, le_tainted = ld_tainted entry\<rparr>) ps) =
        map ld_user (map snd ps)" for ps :: "(nat \<times> LeaderboardData) list"
    by (induction ps) auto
  then show ?thesis by (simp add: rankEntries_def del: map_map)
qed

lemma set_users_rankEntries: "le_user ` set (rankEntries d) = ld_user ` set d"
proof -
  have "set (map le_user (rankEntries d)) = set (map ld_user (sortLeaderboard d))"
    by (simp only: users_rankEntries)
  then show ?thesis by (simp add: sortLeaderboard_def)
qed

text \<open>
  C5 (amended). The claim excludes every account whose lifecycle set holds a tainted
  lifecycle. The route looks for taint among the lifecycles that its lifecycle query
  returns for the account, and that query carries the coin and the time range of the
  request. What holds, in a builder-only leaderboard: an account with a tainted lifecycle
  that matches the coin and the time range of the request is in no response of the route,
  whatever its fills; for a request without coin and time range these are all lifecycles
  of the account. The route gives a response for the metrics volume and pnl, and for
  returnPct unless the cap is 0.
\<close>

theorem leaderboard_excludes_tainted:
  assumes "lq_metric q = Some m" "lq_builderOnly q"
  shows
    "((\<exists>l \<in> set lifecycleTable.
         lifecycleMatches u (lq_coin q) (lq_fromMs q) (lq_toMs q) l \<and> isTainted l) \<longrightarrow>
        (\<forall>entries. leaderboardRoute q fillTable lifecycleTable equityOf = Ok entries \<longrightarrow>
                   u \<notin> le_user ` set entries)) \<and>
     (lq_coin q = None \<and> lq_fromMs q = None \<and> lq_toMs q = None \<and>
        (\<exists>l \<in> set lifecycleTable. lc_user l = u \<and> isTainted l) \<longrightarrow>
        (\<forall>entries. leaderboardRoute q fillTable lifecycleTable equityOf = Ok entries \<longrightarrow>
                   u \<notin> le_user ` set entries)) \<and>
     (m \<noteq> ReturnPct \<or> lq_maxStartCapital q \<noteq> Some 0 \<longrightarrow>
        (\<exists>entries. leaderboardRoute q fillTable lifecycleTable equityOf = Ok entries))"
proof -
  let ?groups = "groupByUser (filter (fillMatches (lq_coin q) (lq_fromMs q) (lq_toMs q)) fillTable)"
  let ?lo = "findLifecycles q lifecycleTable"
  have absent: "u \<notin> le_user ` set entries"
    if t: "\<exists>l \<in> set lifecycleTable.
             lifecycleMatches u (lq_coin q) (lq_fromMs q) (lq_toMs q) l \<and> isTainted l"
      and r: "leaderboardRoute q fillTable lifecycleTable equityOf = Ok entries" for entries
  proof (cases "leaderboardLoop q m ?lo equityOf ?groups []")
    case (Inl e)
    with r assms(1) show ?thesis by (simp add: leaderboardRoute_def)
  next
    case (Inr d)
    with r assms(1) have e: "entries = rankEntries d" by (simp add: leaderboardRoute_def)
    from t have "list_ex isTainted (?lo u)"
      by (auto simp: list_ex_iff findLifecycles_def)
    with leaderboardLoop_users [OF Inr] assms(2) have "u \<notin> ld_user ` set d" by auto
    then show ?thesis unfolding e by (simp add: set_users_rankEntries)
  qed
  have unfiltered: "u \<notin> le_user ` set entries"
    if n: "lq_coin q = None" "lq_fromMs q = None" "lq_toMs q = None"
      and t: "\<exists>l \<in> set lifecycleTable. lc_user l = u \<and> isTainted l"
      and r: "leaderboardRoute q fillTable lifecycleTable equityOf = Ok entries" for entries
  proof -
    from t n have "\<exists>l \<in> set lifecycleTable.
             lifecycleMatches u (lq_coin q) (lq_fromMs q) (lq_toMs q) l \<and> isTainted l"
      by (simp add: lifecycleMatches_unfiltered)
    then show ?thesis using r by (rule absent)
  qed
  have answers: "\<exists>entries. leaderboardRoute q fillTable lifecycleTable equityOf = Ok entries"
    if c: "m \<noteq> ReturnPct \<or> lq_maxStartCapital q \<noteq> Some 0"
  proof -
    from leaderboardLoop_total [OF c, of ?lo equityOf ?groups "[]"]
    obtain d where "leaderboardLoop q m ?lo equityOf ?groups [] = Inr d" by (rule exE)
    with assms(1) show ?thesis by (simp add: leaderboardRoute_def)
  qed
  from absent unfiltered answers show ?thesis by blast
qed

text \<open>Over all coins the account with the tainted BTC lifecycle is absent, though its
  attributed ETH fill outside that lifecycle has the largest volume.\<close>

theorem leaderboard_excludes_tainted_witness:
  "leaderboardRoute volumeBoard boardFills boardLifecycles (\<lambda>u. None) =
     Ok [\<lparr>le_rank = 1, le_user = ''0xbbb'', le_metricValue = 100000, le_tradeCount = 1,
          le_tainted = False\<rparr>] \<and>
   ''0xaaa'' \<notin> le_user ` set
     [\<lparr>le_rank = 1, le_user = ''0xbbb'', le_metricValue = 100000, le_tradeCount = 1,
       le_tainted = False\<rparr>]"
proof -
  have m: "lq_metric volumeBoard = Some Volume" and b: "lq_builderOnly volumeBoard"
    by (simp_all add: volumeBoard_def)
  have n: "lq_coin volumeBoard = None \<and> lq_fromMs volumeBoard = None \<and>
           lq_toMs volumeBoard = None"
    by (simp add: volumeBoard_def)
  have t: "\<exists>l \<in> set boardLifecycles. lc_user l = ''0xaaa'' \<and> isTainted l"
    by (simp add: boardLifecycles_def taintedBtcLifecycle_def isTainted_def)
  have r: "leaderboardRoute volumeBoard boardFills boardLifecycles (\<lambda>u. None) =
     Ok [\<lparr>le_rank = 1, le_user = ''0xbbb'', le_metricValue = 100000, le_tradeCount = 1,
          le_tainted = False\<rparr>]"
    by (simp add: leaderboardRoute_def volumeBoard_def boardFills_def boardLifecycles_def
        taintedBtcLifecycle_def findLifecycles_def lifecycleMatches_def fillMatches_def
        groupByUser_def Let_def isTainted_def keepBuilderFill_def rangesFor_def pushRange_def
        metricValueOf_def decimal_multiply_def rankEntries_def sortLeaderboard_def
        enumerate_eq_zip)
  from leaderboard_excludes_tainted
         [OF m b, where u = "''0xaaa''" and fillTable = boardFills
            and lifecycleTable = boardLifecycles and equityOf = "\<lambda>u. None"] n t r
  show ?thesis by blast
qed

text \<open>The same tables, the request for ETH alone: the tainted BTC lifecycle of the account
  does not match the request, and the account is ranked first.\<close>

theorem leaderboard_excludes_tainted_counterexample:
  "taintedBtcLifecycle \<in> set boardLifecycles \<and>
   lc_user taintedBtcLifecycle = ''0xaaa'' \<and>
   isTainted taintedBtcLifecycle \<and>
   lq_builderOnly ethBoard \<and>
   leaderboardRoute ethBoard boardFills boardLifecycles (\<lambda>u. None) =
     Ok [\<lparr>le_rank = 1, le_user = ''0xaaa'', le_metricValue = 3000000, le_tradeCount = 1,
          le_tainted = False\<rparr>]"
  by (simp add: leaderboardRoute_def ethBoard_def boardFills_def boardLifecycles_def
      taintedBtcLifecycle_def findLifecycles_def lifecycleMatches_def fillMatches_def
      groupByUser_def Let_def isTainted_def keepBuilderFill_def rangesFor_def pushRange_def
      metricValueOf_def decimal_multiply_def rankEntries_def sortLeaderboard_def
      enumerate_eq_zip)

lemma ranks_rankEntries: "map le_rank (rankEntries d) = [1..<Suc (length d)]"
proof -
  have "map le_rank (map (\<lambda>(index, entry).
            \<lparr>le_rank = index + 1, le_user = ld_user entry, le_metricValue = ld_metricValue entry,
             le_tradeCount = ld_tradeCount entry, le_tainted = ld_tainted entry\<rparr>) ps) =
        map Suc (map fst ps)" for ps :: "(nat \<times> LeaderboardData) list"
    by (induction ps) auto
  then have "map le_rank (rankEntries d) = map Suc [0..<length d]"
    by (simp add: rankEntries_def sortLeaderboard_def del: map_map)
  then show ?thesis by (simp add: map_Suc_upt)
qed

lemma metrics_rankEntries:
  "map le_metricValue (rankEntries d) = map ld_metricValue (sortLeaderboard d)"
proof -
  have "map le_metricValue (map (\<lambda>(index, entry).
            \<lparr>le_rank = index + 1, le_user = ld_user entry, le_metricValue = ld_metricValue entry,
             le_tradeCount = ld_tradeCount entry, le_tainted = ld_tainted entry\<rparr>) ps) =
        map ld_metricValue (map snd ps)" for ps :: "(nat \<times> LeaderboardData) list"
    by (induction ps) auto
  then show ?thesis by (simp add: rankEntries_def del: map_map)
qed

lemma descending_rankEntries: "sorted_wrt (\<ge>) (map le_metricValue (rankEntries d))"
proof -
  have "sorted (map (\<lambda>e. - ld_metricValue e) (sortLeaderboard d))"
    by (simp add: sortLeaderboard_def)
  then show ?thesis
    by (simp add: metrics_rankEntries sorted_wrt_map)
qed

lemma stable_rankEntries:
  "map le_user (filter (\<lambda>e. le_metricValue e = v) (rankEntries d)) =
   map ld_user (filter (\<lambda>e. ld_metricValue e = v) d)"
proof -
  have "map le_user (filter (\<lambda>e. le_metricValue e = v) (map (\<lambda>(index, entry).
            \<lparr>le_rank = index + 1, le_user = ld_user entry, le_metricValue = ld_metricValue entry,
             le_tradeCount = ld_tradeCount entry, le_tainted = ld_tainted entry\<rparr>) ps)) =
        map ld_user (filter (\<lambda>e. ld_metricValue e = v) (map snd ps))"
    for ps :: "(nat \<times> LeaderboardData) list"
    by (induction ps) auto
  then have "map le_user (filter (\<lambda>e. le_metricValue e = v) (rankEntries d)) =
        map ld_user (filter (\<lambda>e. ld_metricValue e = v) (sortLeaderboard d))"
    by (simp add: rankEntries_def del: map_map)
  also have "filter (\<lambda>e. ld_metricValue e = v) (sortLeaderboard d) =
             filter (\<lambda>e. - ld_metricValue e = - v) (sort_key (\<lambda>e. - ld_metricValue e) d)"
    by (simp add: sortLeaderboard_def)
  also have "\<dots> = filter (\<lambda>e. - ld_metricValue e = - v) d"
    by (rule sort_key_stable)
  finally show ?thesis by simp
qed

text \<open>
  C8 (amended). The claim has entries with equal metric value share a rank. The route gives
  every entry its position in the sorted list. What holds: the entries are in descending
  order of metric value; entries with equal metric value keep the order in which their
  accounts were collected (the order of first appearance among the fills); and the ranks
  are 1, 2, ..., n in list order, so tied entries get different, consecutive ranks.
\<close>

theorem leaderboard_ranking:
  "sorted_wrt (\<ge>) (map le_metricValue (rankEntries d)) \<and>
   map le_rank (rankEntries d) = [1..<Suc (length d)] \<and>
   map le_user (filter (\<lambda>e. le_metricValue e = v) (rankEntries d)) =
     map ld_user (filter (\<lambda>e. ld_metricValue e = v) d) \<and>
   mset (map le_user (rankEntries d)) = mset (map ld_user d)"
proof -
  have "mset (map le_user (rankEntries d)) = mset (map ld_user d)"
    by (simp add: users_rankEntries sortLeaderboard_def)
  with descending_rankEntries [of d] ranks_rankEntries [of d] stable_rankEntries [of v d]
  show ?thesis by blast
qed

theorem leaderboard_ranking_witness:
  "rankEntries tiedBoard =
     [\<lparr>le_rank = 1, le_user = ''0xbbb'', le_metricValue = 20, le_tradeCount = 1,
       le_tainted = False\<rparr>,
      \<lparr>le_rank = 2, le_user = ''0xaaa'', le_metricValue = 10, le_tradeCount = 1,
       le_tainted = False\<rparr>,
      \<lparr>le_rank = 3, le_user = ''0xccc'', le_metricValue = 10, le_tradeCount = 1,
       le_tainted = False\<rparr>] \<and>
   map le_rank (rankEntries tiedBoard) = [1, 2, 3]"
proof -
  have e: "rankEntries tiedBoard =
     [\<lparr>le_rank = 1, le_user = ''0xbbb'', le_metricValue = 20, le_tradeCount = 1,
       le_tainted = False\<rparr>,
      \<lparr>le_rank = 2, le_user = ''0xaaa'', le_metricValue = 10, le_tradeCount = 1,
       le_tainted = False\<rparr>,
      \<lparr>le_rank = 3, le_user = ''0xccc'', le_metricValue = 10, le_tradeCount = 1,
       le_tainted = False\<rparr>]"
    by (simp add: rankEntries_def sortLeaderboard_def tiedBoard_def enumerate_eq_zip)
  have l: "length tiedBoard = 3" by (simp add: tiedBoard_def)
  from leaderboard_ranking [of tiedBoard 10] l
  have "map le_rank (rankEntries tiedBoard) = [1..<Suc 3]" by simp
  moreover have "[1..<Suc 3] = [1, 2, 3 :: nat]" by (simp add: upt_rec)
  ultimately show ?thesis using e by simp
qed

text \<open>The second and the third entry have the same metric value and the ranks 2 and 3.\<close>

theorem leaderboard_ranking_counterexample:
  "le_metricValue (rankEntries tiedBoard ! 1) = le_metricValue (rankEntries tiedBoard ! 2) \<and>
   le_rank (rankEntries tiedBoard ! 1) \<noteq> le_rank (rankEntries tiedBoard ! 2)"
  by (simp add: rankEntries_def sortLeaderboard_def tiedBoard_def enumerate_eq_zip)

end
